theory Spec2Isabelle
  imports Complex_Main
begin

section \<open>Values, errors and arrays\<close>

text \<open>
  The repeater-chain engine of \<^verbatim>\<open>repeater_algorithm.py\<close> works on NumPy arrays of
  floats. The embedding takes an array as a \<open>real list\<close> and a float as a real number:
  rounding is not followed. Every Python exception is a value of \<open>error\<close>. The one
  member that is no exception, \<open>NonFinite\<close>, marks a call whose arrays hold IEEE
  infinities or NaN after a division by zero in the Fourier domain, which the real numbers
  cannot follow.
\<close>

datatype error =
    TypeError | ValueError | IndexError | OverflowError | NotImplementedError
  | AssertionError | UnboundLocalError | KeyError | NonFinite

text \<open>A cut-off is a Python integer or a float.\<close>

datatype pynum = PInt int | PFloat real

fun num_val :: "pynum \<Rightarrow> real" where
  "num_val (PInt n) = of_int n"
| "num_val (PFloat x) = x"

fun is_integer :: "pynum \<Rightarrow> bool" where
  "is_integer (PInt n) = True"
| "is_integer (PFloat x) = False"

text \<open>\<^verbatim>\<open>np.iinfo(int).max\<close>\<close>

definition int_max :: int where
  "int_max = 2 ^ 63 - 1"

text \<open>Reading an array at an index, zero beyond its end (zero padding).\<close>

definition nth0 :: "real list \<Rightarrow> nat \<Rightarrow> real" where
  "nth0 xs i = (if i < length xs then xs ! i else 0)"

text \<open>
  \<^verbatim>\<open>np.convolve(a, v)\<close> in its default mode: the full discrete convolution, of length
  \<open>len(a) + len(v) - 1\<close>; an empty argument raises ValueError.
\<close>

definition convolve :: "real list \<Rightarrow> real list \<Rightarrow> error + real list" where
  "convolve a v =
     (if a = [] \<or> v = [] then Inl ValueError
      else Inr (map (\<lambda>n. \<Sum>m\<leftarrow>[0..<Suc n]. nth0 a m * nth0 v (n - m))
                    [0..<length a + length v - 1]))"

section \<open>The iterative convolution\<close>

text \<open>
  Lines 149 to 151 of \<^verbatim>\<open>iterative_convolution_helper\<close>: the array is shifted to the
  right by \<open>shift\<close> zeros and cut to \<open>trunc\<close> samples, but only under the guard
  \<open>shift <= trunc\<close>; \<^verbatim>\<open>np.zeros\<close> of a negative size raises ValueError.
\<close>

definition shift_func :: "real list \<Rightarrow> nat \<Rightarrow> int \<Rightarrow> error + real list" where
  "shift_func func trunc shift =
     (if shift \<le> int trunc then
        (if shift < 0 then Inl ValueError
         else Inr (take trunc (replicate (nat shift) 0 @ func)))
      else Inr func)"

text \<open>
  Lines 143 to 147: the result array starts as \<open>first_func\<close>, times \<open>p_swap\<close> when
  one is given, written into \<open>trunc\<close> zeros. A longer \<open>first_func\<close> does not
  broadcast (ValueError), except for a single sample, which does.
\<close>

definition scale :: "real option \<Rightarrow> real list \<Rightarrow> real list" where
  "scale p_swap xs = (case p_swap of None \<Rightarrow> xs | Some p \<Rightarrow> map (\<lambda>x. p * x) xs)"

definition init_sum :: "real option \<Rightarrow> real list \<Rightarrow> nat \<Rightarrow> error + real list" where
  "init_sum p_swap first_func trunc =
     (if trunc < length first_func \<and> length first_func \<noteq> 1 then Inl ValueError
      else Inr (take trunc (scale p_swap first_func @ replicate (trunc - length first_func) 0)))"

text \<open>
  Lines 208 to 214, the loop of the exact convolution over \<open>k\<close> in \<open>range(1, max_k)\<close>:
  the running convolution is cut to \<open>trunc\<close> samples and convolved with \<open>func\<close> once
  more, and added into the sum with the coefficient \<open>p_swap * (1 - p_swap) ** k\<close>
  (or 1 without a swap probability).
\<close>

definition coeff :: "real option \<Rightarrow> nat \<Rightarrow> real" where
  "coeff p_swap k = (case p_swap of None \<Rightarrow> 1 | Some p \<Rightarrow> p * (1 - p) ^ k)"

definition add_scaled :: "real list \<Rightarrow> real \<Rightarrow> real list \<Rightarrow> error + real list" where
  "add_scaled acc c xs =
     (if length xs = length acc \<or> length xs = 1
      then Inr (map (\<lambda>i. acc ! i + c * (if length xs = length acc then xs ! i else xs ! 0))
                    [0..<length acc])
      else Inl ValueError)"

fun conv_loop ::
  "real option \<Rightarrow> nat \<Rightarrow> real list \<Rightarrow> nat list \<Rightarrow> real list \<Rightarrow> real list \<Rightarrow> error + real list"
where
  "conv_loop p_swap trunc func [] convolved sum_convolved = Inr sum_convolved"
| "conv_loop p_swap trunc func (k # ks) convolved sum_convolved =
     (case convolve (take trunc convolved) (take trunc func) of
        Inl e \<Rightarrow> Inl e
      | Inr c \<Rightarrow>
          (case add_scaled sum_convolved (coeff p_swap k) (take trunc c) of
             Inl e \<Rightarrow> Inl e
           | Inr s \<Rightarrow> conv_loop p_swap trunc func ks c s))"

definition exact_convolution ::
  "real list \<Rightarrow> real list \<Rightarrow> nat \<Rightarrow> real option \<Rightarrow> int \<Rightarrow> real list \<Rightarrow> error + real list"
where
  "exact_convolution func first_func trunc p_swap max_k sum_convolved =
     (if trunc < length first_func then Inl ValueError
      else conv_loop p_swap trunc func [1..<nat max_k]
             (first_func @ replicate (trunc - length first_func) 0) sum_convolved)"

text \<open>Sequencing of calls that may raise: the first error ends the computation.\<close>

fun ebind :: "error + 'a \<Rightarrow> ('a \<Rightarrow> error + 'b) \<Rightarrow> error + 'b" where
  "ebind (Inl e) f = Inl e"
| "ebind (Inr a) f = f a"

subsection \<open>The Fourier path\<close>

text \<open>
  \<^verbatim>\<open>np.fft.fft(x, n)\<close> cuts or zero-pads \<open>x\<close> to \<open>n\<close> samples and returns its discrete
  Fourier transform; \<^verbatim>\<open>np.fft.ifft\<close> is the inverse transform. Both are taken by
  their documented definition over the complex numbers, with the root of unity
  \<open>cis (- 2 pi / n)\<close>.
\<close>

definition fft :: "real list \<Rightarrow> nat \<Rightarrow> complex list" where
  "fft x n =
     map (\<lambda>k. \<Sum>j\<leftarrow>[0..<n]. complex_of_real (nth0 x j) * cis (- 2 * pi / real n) ^ (j * k))
         [0..<n]"

definition ifft :: "complex list \<Rightarrow> complex list" where
  "ifft y =
     map (\<lambda>j. (\<Sum>k\<leftarrow>[0..<length y]. y ! k * cis (2 * pi / real (length y)) ^ (j * k))
                / of_nat (length y))
         [0..<length y]"

text \<open>
  Line 162: the padded size \<open>2 ** ceil(log2(2 * trunc - 1))\<close>, the least power of two
  that is at least \<open>2 * trunc - 1\<close>, unless \<open>zero_padding_size\<close> is set. With
  \<open>trunc = 0\<close> the logarithm of \<open>-1\<close> makes the power fail; a transform of no
  samples raises ValueError as well.
\<close>

fun pow2_up :: "nat \<Rightarrow> nat \<Rightarrow> nat \<Rightarrow> nat" where
  "pow2_up 0 p n = p"
| "pow2_up (Suc fuel) p n = (if n \<le> p then p else pow2_up fuel (2 * p) n)"

definition fft_shape :: "nat option \<Rightarrow> nat \<Rightarrow> error + nat" where
  "fft_shape zero_padding_size trunc =
     (case zero_padding_size of
        Some n \<Rightarrow> (if n = 0 then Inl ValueError else Inr n)
      | None \<Rightarrow>
          (if trunc = 0 then Inl ValueError
           else Inr (pow2_up (2 * trunc - 1) 1 (2 * trunc - 1))))"

text \<open>
  Lines 182 to 189, the geometric sum in Fourier space. A frequency at which the
  denominator vanishes gives infinities or NaN in NumPy (NonFinite here).
\<close>

definition fft_denominator :: "real option \<Rightarrow> complex \<Rightarrow> complex" where
  "fft_denominator p_swap f =
     (case p_swap of None \<Rightarrow> 1 - f | Some p \<Rightarrow> 1 - complex_of_real (1 - p) * f)"

definition fft_series ::
  "real list \<Rightarrow> real list \<Rightarrow> real option \<Rightarrow> nat \<Rightarrow> error + complex list" where
  "fft_series func convolved p_swap shape =
     (let convolved_fourier = fft convolved shape;
          func_fourier = fft func shape
      in if \<exists>f \<in> set func_fourier. fft_denominator p_swap f = 0 then Inl NonFinite
         else Inr (ifft (map (\<lambda>(c, f).
                      (case p_swap of None \<Rightarrow> c | Some p \<Rightarrow> complex_of_real p * c)
                        / fft_denominator p_swap f)
                    (zip convolved_fourier func_fourier))))"

text \<open>
  Lines 191 to 201: the validity check reads \<open>result[-1]\<close>, the last sample of the
  inverse transform, before the result is cut to \<open>trunc\<close> samples; the threshold is the
  literal \<open>10e-16\<close>.
\<close>

definition padding_warning :: "complex list \<Rightarrow> bool" where
  "padding_warning result = (cmod (last result) > 10 / 10 ^ 16)"

definition fft_finish :: "complex list \<Rightarrow> nat \<Rightarrow> real list" where
  "fft_finish result trunc = map Re (take trunc result)"

subsection \<open>The helper and its caller\<close>

text \<open>
  The simulator object: the fields of \<^verbatim>\<open>RepeaterChainSimulation\<close> that select a path.
  The GPU fields are left out: they choose between two implementations of the same
  transform.
\<close>

record simulator =
  use_cache :: bool
  use_fft :: bool
  efficient :: bool
  zero_padding_size :: "nat option"
  qutip :: bool

text \<open>\<^verbatim>\<open>RepeaterChainSimulation(use_cache)\<close>\<close>

definition new_simulator :: "bool \<Rightarrow> simulator" where
  "new_simulator c =
     \<lparr>use_cache = c, use_fft = True, efficient = True, zero_padding_size = None,
      qutip = False\<rparr>"

text \<open>
  \<^verbatim>\<open>iterative_convolution_helper\<close> returns the summed series; the second component
  tells whether the zero-padding warning was logged.
\<close>

definition iterative_convolution_helper ::
  "simulator \<Rightarrow> real list \<Rightarrow> real list \<Rightarrow> nat \<Rightarrow> int \<Rightarrow> real option \<Rightarrow> int
     \<Rightarrow> error + (real list \<times> bool)" where
  "iterative_convolution_helper sim func first_func trunc shift p_swap max_k =
     ebind (init_sum p_swap first_func trunc) (\<lambda>sum_convolved.
     ebind (shift_func func trunc shift) (\<lambda>func'.
       if use_fft sim then
         ebind (fft_shape (zero_padding_size sim) trunc) (\<lambda>shape.
         ebind (fft_series func' first_func p_swap shape) (\<lambda>result.
           Inr (fft_finish result trunc, padding_warning result)))
       else
         ebind (exact_convolution func' first_func trunc p_swap max_k sum_convolved)
           (\<lambda>result. Inr (result, False))))"

text \<open>
  Lines 95 to 116 of \<^verbatim>\<open>iterative_convolution\<close>: the number of convolutions. Python's
  \<open>int\<close> rounds towards zero and raises OverflowError on an infinity, which is what the
  quotient is when \<open>pf = 1\<close>.
\<close>

definition py_int :: "real \<Rightarrow> int" where
  "py_int x = (if 0 \<le> x then \<lfloor>x\<rfloor> else \<lceil>x\<rceil>)"

definition required_k :: "nat \<Rightarrow> int \<Rightarrow> real \<Rightarrow> error + int" where
  "required_k trunc shift pf =
     (let max_k = (if shift \<noteq> 0 then \<lceil>real trunc / real_of_int shift\<rceil> else int trunc)
      in if pf \<le> 0 then Inr (int trunc)
         else if pf = 1 then Inl OverflowError
         else Inr (py_int (min (real_of_int max_k) ((- 52 - ln (real trunc)) / ln pf))))"

text \<open>
  \<^verbatim>\<open>iterative_convolution\<close>, lines 60 to 138, for one-dimensional arrays (the
  density-matrix branch is left out). The warning of the helper is a log entry and is
  dropped here.
\<close>

definition iterative_convolution ::
  "simulator \<Rightarrow> real list \<Rightarrow> int \<Rightarrow> real list option \<Rightarrow> real option \<Rightarrow> error + real list"
where
  "iterative_convolution sim func shift first_func p_swap =
     (let trunc = length func;
          pf = (case p_swap of None \<Rightarrow> sum_list func | Some p \<Rightarrow> sum_list func * (1 - p))
      in ebind (required_k trunc shift pf) (\<lambda>max_k.
         let first_func' = (case first_func of None \<Rightarrow> func | Some g \<Rightarrow> g)
         in if length first_func' \<noteq> trunc then Inl ValueError
            else ebind (iterative_convolution_helper sim func first_func' trunc shift p_swap max_k)
              (\<lambda>(result, warned).
                 if length result = trunc then Inr result
                 else if length result = 1 then Inr (replicate trunc (result ! 0))
                 else Inl ValueError)))"

section \<open>The unit operations\<close>

text \<open>
  The join-links kernels \<^verbatim>\<open>join_links_efficient\<close> and \<^verbatim>\<open>join_links_compatible\<close> are
  imported from modules that are not among the sources. The embedding takes them as
  parameters: a kernel maps the two waiting-time distributions, the two Werner arrays, the
  flag \<open>ycut\<close>, the cut-off, the cut-off type, the tag \<open>evaluate_func\<close> and the
  coherence time to an array, or raises.
\<close>

datatype cut = One pynum | Many "pynum list"

datatype coherence = TInf | TScalar real | TList "real list"

type_synonym join_links =
  "real list \<Rightarrow> real list \<Rightarrow> real list \<Rightarrow> real list \<Rightarrow> bool \<Rightarrow> cut \<Rightarrow> string \<Rightarrow> string
     \<Rightarrow> coherence \<Rightarrow> error + real list"

record kernels =
  join_links_efficient :: join_links
  join_links_compatible :: join_links

text \<open>
  The quotient of two floats under \<^verbatim>\<open>np.errstate(divide='ignore', invalid='ignore')\<close>:
  zero by zero is NaN, a nonzero number by zero an infinity of its sign (signed zeros are
  not followed).
\<close>

datatype fl = Fin real | PInf | NInf | NaN

definition fdiv :: "real \<Rightarrow> real \<Rightarrow> fl" where
  "fdiv x y =
     (if y = 0 then (if x = 0 then NaN else if 0 < x then PInf else NInf) else Fin (x / y))"

text \<open>\<^verbatim>\<open>state_out[1:] /= pmf[1:]\<close>: the sample at index 0 is left as it is.\<close>

definition divide_tail :: "real list \<Rightarrow> real list \<Rightarrow> error + fl list" where
  "divide_tail state_out pmf =
     (if length state_out \<noteq> length pmf then Inl ValueError
      else Inr (case state_out of [] \<Rightarrow> [] | s # ss \<Rightarrow> Fin s # map (\<lambda>(x, y). fdiv x y) (zip ss (tl pmf))))"

text \<open>\<^verbatim>\<open>np.where(np.isnan(w), 1., w)\<close>\<close>

definition nan_to_one :: "fl list \<Rightarrow> fl list" where
  "nan_to_one ws = map (\<lambda>w. if w = NaN then Fin 1 else w) ws"

text \<open>
  Lines 478 to 480 of \<^verbatim>\<open>compute_unit\<close>: NaN becomes 1, then every value above 1
  becomes 1 and every value below 0 becomes 0.
\<close>

fun clamp :: "fl \<Rightarrow> real" where
  "clamp NaN = 1"
| "clamp PInf = 1"
| "clamp NInf = 0"
| "clamp (Fin x) = (if 1 < x then 1 else if x < 0 then 0 else x)"

definition scrub :: "fl list \<Rightarrow> real list" where
  "scrub ws = map clamp (nan_to_one ws)"

text \<open>
  Lines 248 to 262: the choice of the kernel and of the shift. The efficient kernel is taken
  when the simulator's flag \<open>efficient\<close> is set and the cut-off is a memory time. With
  the test flag \<open>_qutip\<close> set, the state kernel of the efficient branch is never bound.
\<close>

datatype join_path = Efficient | Compatible

definition select_path :: "simulator \<Rightarrow> string \<Rightarrow> join_path" where
  "select_path sim ct = (if efficient sim \<and> ct = ''memory_time'' then Efficient else Compatible)"

definition path_kernel :: "kernels \<Rightarrow> join_path \<Rightarrow> join_links" where
  "path_kernel K path = (case path of Efficient \<Rightarrow> join_links_efficient K
                                     | Compatible \<Rightarrow> join_links_compatible K)"

definition select_join_links :: "kernels \<Rightarrow> simulator \<Rightarrow> string \<Rightarrow> join_links" where
  "select_join_links K sim ct = path_kernel K (select_path sim ct)"

definition select_join_links_state :: "kernels \<Rightarrow> simulator \<Rightarrow> string \<Rightarrow> join_links" where
  "select_join_links_state K sim ct =
     (if select_path sim ct = Efficient \<and> qutip sim
      then (\<lambda>pmf1 pmf2 w1 w2 ycut c ct' tag tc. Inl UnboundLocalError)
      else path_kernel K (select_path sim ct))"

text \<open>
  The shift is the cut-off for a memory time and 0 otherwise. \<^verbatim>\<open>compute_unit\<close>, the
  only caller in the sources, lets a memory-time cut-off through only when it is an
  integer; the model refuses any other value at once (in the source \<^verbatim>\<open>np.zeros\<close>
  would refuse it later, inside the iterative convolution).
\<close>

definition shift_of :: "string \<Rightarrow> cut \<Rightarrow> error + int" where
  "shift_of ct c =
     (if ct = ''memory_time''
      then (case c of One (PInt n) \<Rightarrow> Inr n | _ \<Rightarrow> Inl TypeError)
      else Inr 0)"

text \<open>\<^verbatim>\<open>entanglement_swap\<close>, lines 218 to 306, on one-dimensional arrays.\<close>

definition entanglement_swap ::
  "kernels \<Rightarrow> simulator \<Rightarrow> real list \<Rightarrow> real list \<Rightarrow> real list \<Rightarrow> real list \<Rightarrow> real \<Rightarrow> cut
     \<Rightarrow> coherence \<Rightarrow> string \<Rightarrow> error + (real list \<times> fl list)" where
  "entanglement_swap K sim pmf1 w_func1 pmf2 w_func2 ps c tc ct =
     (let join_links = select_join_links K sim ct;
          join_links_state = select_join_links_state K sim ct
      in ebind (shift_of ct c) (\<lambda>sh.
         ebind (join_links pmf1 pmf2 w_func1 w_func2 False c ct ''1'' tc) (\<lambda>pf_cutoff.
         ebind (join_links pmf1 pmf2 w_func1 w_func2 True c ct ''1'' tc) (\<lambda>ps_cutoff.
         ebind (iterative_convolution sim pf_cutoff sh (Some ps_cutoff) None) (\<lambda>pmf_cutoff.
         ebind (iterative_convolution sim pmf_cutoff 0 None (Some ps)) (\<lambda>pmf_swap.
         ebind (join_links_state pmf1 pmf2 w_func1 w_func2 True c ct ''w1w2'' tc) (\<lambda>state_suc.
         ebind (iterative_convolution sim pf_cutoff sh (Some state_suc) None) (\<lambda>state_prep.
         ebind (iterative_convolution sim pmf_cutoff 0 (Some state_prep) (Some ps)) (\<lambda>state_out.
         ebind (divide_tail state_out pmf_swap) (\<lambda>w.
           Inr (pmf_swap, nan_to_one w)))))))))))"

text \<open>\<^verbatim>\<open>destillation\<close>, lines 309 to 395.\<close>

definition destillation ::
  "kernels \<Rightarrow> simulator \<Rightarrow> real list \<Rightarrow> real list \<Rightarrow> real list \<Rightarrow> real list \<Rightarrow> cut
     \<Rightarrow> coherence \<Rightarrow> string \<Rightarrow> error + (real list \<times> fl list)" where
  "destillation K sim pmf1 w_func1 pmf2 w_func2 c tc ct =
     (let join_links = select_join_links K sim ct
      in ebind (shift_of ct c) (\<lambda>sh.
         ebind (join_links pmf1 pmf2 w_func1 w_func2 False c ct ''1'' tc) (\<lambda>pf_cutoff.
         ebind (join_links pmf1 pmf2 w_func1 w_func2 True c ct ''0.5+0.5w1w2'' tc) (\<lambda>pss_cutoff.
         ebind (iterative_convolution sim pf_cutoff sh (Some pss_cutoff) None) (\<lambda>ps_dist.
         ebind (join_links pmf1 pmf2 w_func1 w_func2 True c ct ''0.5-0.5w1w2'' tc) (\<lambda>psf_cutoff.
         ebind (iterative_convolution sim pf_cutoff sh (Some psf_cutoff) None) (\<lambda>pf_dist.
         ebind (iterative_convolution sim pf_dist 0 (Some ps_dist) None) (\<lambda>pmf_dist.
         ebind (join_links pmf1 pmf2 w_func1 w_func2 True c ct ''w1+w2+4w1w2'' tc) (\<lambda>state_suc.
         ebind (iterative_convolution sim pf_cutoff sh (Some state_suc) None) (\<lambda>state_prep.
         ebind (iterative_convolution sim pf_dist 0 (Some state_prep) None) (\<lambda>state_out.
         ebind (divide_tail state_out pmf_dist) (\<lambda>w.
           Inr (pmf_dist, nan_to_one w)))))))))))))"

section \<open>Parameters\<close>

text \<open>
  The parameter dictionary, one field for each key the engine reads; an optional key is an
  \<open>option\<close>. A protocol step is an integer tag (symmetric driver) or a string
  (asymmetric driver). \<open>p_gen\<close>, \<open>w0\<close> are a number or a sequence of numbers.
\<close>

datatype token = Tag int | Str string

datatype numbers = Scalar real | Vector "real list"

record parameters =
  protocol :: "token list"
  p_gen :: numbers
  p_swap :: real
  w0 :: numbers
  t_coh :: "coherence option"
  t_trunc :: int
  cut_type :: "string option"
  cutoff :: "cut option"
  mt_cut :: "cut option"
  w_cut :: "cut option"
  rt_cut :: "cut option"
  tau :: "cut option"
  cutoff_dict :: "(string \<times> cut) list option"
  all_level :: "bool option"

text \<open>
  Lines 430 to 443 of \<^verbatim>\<open>compute_unit\<close>: the coherence time, the cut-off type and the
  cut-off. A fidelity cut-off of 0 is replaced by \<open>1e-16\<close>.
\<close>

definition unit_t_coh :: "parameters \<Rightarrow> coherence" where
  "unit_t_coh P = (case t_coh P of None \<Rightarrow> TInf | Some t \<Rightarrow> t)"

definition unit_cut_type :: "parameters \<Rightarrow> string" where
  "unit_cut_type P = (case cut_type P of None \<Rightarrow> ''memory_time'' | Some c \<Rightarrow> c)"

definition get_or :: "'a option \<Rightarrow> 'a \<Rightarrow> 'a" where
  "get_or v d = (case v of None \<Rightarrow> d | Some x \<Rightarrow> x)"

definition is_zero :: "cut \<Rightarrow> bool" where
  "is_zero c = (case c of One x \<Rightarrow> num_val x = 0 | Many xs \<Rightarrow> False)"

definition unit_cutoff :: "parameters \<Rightarrow> cut" where
  "unit_cutoff P =
     (case cutoff P of
        Some c \<Rightarrow> c
      | None \<Rightarrow>
          (if unit_cut_type P = ''memory_time'' then get_or (mt_cut P) (One (PInt int_max))
           else if unit_cut_type P = ''fidelity'' then
             (let c = get_or (w_cut P) (One (PFloat (1 / 10 ^ 16)))
              in if is_zero c then One (PFloat (1 / 10 ^ 16)) else c)
           else if unit_cut_type P = ''run_time'' then get_or (rt_cut P) (One (PInt int_max))
           else One (PInt int_max)))"

text \<open>
  Lines 445 to 462, the checks. In the typed parameters \<open>p_gen\<close>, \<open>t_coh\<close> and
  \<open>p_swap\<close> are real numbers, so their checks pass. A time cut-off must be an integer.
  The fidelity check raises when \<^verbatim>\<open>not (cutoff >= 0. or cutoff < 1.)\<close>; comparing a
  sequence with a float raises TypeError by itself.
\<close>

definition check_time_cutoff :: "string \<Rightarrow> cut \<Rightarrow> error + unit" where
  "check_time_cutoff ct c =
     (if (ct = ''memory_time'' \<or> ct = ''run_time'')
          \<and> \<not> (case c of One x \<Rightarrow> is_integer x | Many xs \<Rightarrow> False)
      then Inl TypeError else Inr ())"

definition check_fidelity_cutoff :: "string \<Rightarrow> cut \<Rightarrow> error + unit" where
  "check_fidelity_cutoff ct c =
     (if ct = ''fidelity'' then
        (case c of
           Many xs \<Rightarrow> Inl TypeError
         | One x \<Rightarrow> if \<not> (num_val x \<ge> 0 \<or> num_val x < 1) then Inl TypeError else Inr ())
      else Inr ())"

text \<open>
  \<^verbatim>\<open>compute_unit\<close>, lines 398 to 490. A unit kind other than \<open>swap\<close> and \<open>dist\<close>
  leaves the result unbound. The coverage warning is a log entry; it is kept apart in
  \<open>low_coverage\<close>.
\<close>

definition compute_unit ::
  "kernels \<Rightarrow> simulator \<Rightarrow> parameters \<Rightarrow> real list \<Rightarrow> real list \<Rightarrow> real list option
     \<Rightarrow> real list option \<Rightarrow> string \<Rightarrow> error + (real list \<times> real list)" where
  "compute_unit K sim P pmf1 w_func1 pmf2 w_func2 unit_kind =
     (let pmf2' = get_or pmf2 pmf1;
          w_func2' = get_or w_func2 w_func1;
          tc = unit_t_coh P;
          ct = unit_cut_type P;
          c = unit_cutoff P
      in ebind (check_time_cutoff ct c) (\<lambda>_.
         ebind (check_fidelity_cutoff ct c) (\<lambda>_.
         ebind (if unit_kind = ''swap''
                  then entanglement_swap K sim pmf1 w_func1 pmf2' w_func2' (p_swap P) c tc ct
                else if unit_kind = ''dist''
                  then destillation K sim pmf1 w_func1 pmf2' w_func2' c tc ct
                else Inl UnboundLocalError)
           (\<lambda>(pmf, w_func). Inr (pmf, scrub w_func)))))"

definition low_coverage :: "real list \<Rightarrow> bool" where
  "low_coverage pmf = (sum_list pmf < 99 / 100)"

section \<open>The symmetric driver\<close>

text \<open>
  A link state is the pair \<open>(pmf, w_func)\<close>. Lines 589 to 593 of
  \<^verbatim>\<open>nested_protocol\<close> build the elementary link:
  \<open>pmf = [0] ++ [p_gen * (1 - p_gen) ** (t - 1) for t in 1 .. t_trunc - 1]\<close> and
  \<open>w_func = [w0] * t_trunc\<close>. A sequence for \<open>p_gen\<close> fails at \<open>1 - p_gen\<close>; a
  sequence for \<open>w0\<close> would make \<open>w_func\<close> two-dimensional, which the one-dimensional
  model refuses as well.
\<close>

type_synonym link = "real list \<times> real list"

definition elementary_link :: "real \<Rightarrow> real \<Rightarrow> int \<Rightarrow> link" where
  "elementary_link p w t =
     (0 # map (\<lambda>k. p * (1 - p) ^ (k - 1)) [1..<nat t], replicate (nat t) w)"

definition first_link :: "parameters \<Rightarrow> error + link" where
  "first_link P =
     (case (p_gen P, w0 P) of
        (Scalar p, Scalar w) \<Rightarrow> Inr (elementary_link p w (t_trunc P))
      | _ \<Rightarrow> Inl TypeError)"

text \<open>
  Lines 554 to 578: the cut-offs of each kind, one for every step. The key \<open>tau\<close> is an
  old name of \<open>mt_cut\<close>; a \<open>cutoff_dict\<close> takes precedence over the single keys; a
  number is repeated for every step of the protocol and a sequence is used as it is.
\<close>

definition rename_tau :: "parameters \<Rightarrow> parameters" where
  "rename_tau P = (case tau P of None \<Rightarrow> P | Some c \<Rightarrow> P\<lparr>mt_cut := Some c, tau := None\<rparr>)"

definition expand :: "cut \<Rightarrow> nat \<Rightarrow> pynum list" where
  "expand c n = (case c of One x \<Rightarrow> replicate n x | Many xs \<Rightarrow> xs)"

definition cut_of :: "parameters \<Rightarrow> string \<Rightarrow> cut option \<Rightarrow> cut \<Rightarrow> cut" where
  "cut_of P key single d =
     (case cutoff_dict P of
        Some dict \<Rightarrow> get_or (map_of dict key) d
      | None \<Rightarrow> get_or single d)"

definition mt_cuts :: "parameters \<Rightarrow> pynum list" where
  "mt_cuts P = expand (cut_of P ''memory_time'' (mt_cut P) (One (PInt int_max))) (length (protocol P))"

definition w_cuts :: "parameters \<Rightarrow> pynum list" where
  "w_cuts P = expand (cut_of P ''fidelity'' (w_cut P) (One (PFloat (1 / 10 ^ 8)))) (length (protocol P))"

definition rt_cuts :: "parameters \<Rightarrow> pynum list" where
  "rt_cuts P = expand (cut_of P ''run_time'' (rt_cut P) (One (PInt int_max))) (length (protocol P))"

text \<open>Reading a tuple at a non-negative index: IndexError beyond its end.\<close>

definition item :: "'a list \<Rightarrow> nat \<Rightarrow> error + 'a" where
  "item xs i = (if i < length xs then Inr (xs ! i) else Inl IndexError)"

text \<open>
  Lines 608 to 612: the parameters of step \<open>i\<close>. A sequence under the key \<open>cutoff\<close>
  is read at \<open>i\<close>, and so are the three expanded cut-offs.
\<close>

definition step_parameters :: "parameters \<Rightarrow> nat \<Rightarrow> error + parameters" where
  "step_parameters P i =
     (let Q = rename_tau P in
      ebind (case cutoff Q of
               Some (Many xs) \<Rightarrow> ebind (item xs i) (\<lambda>x. Inr (Some (One x)))
             | other \<Rightarrow> Inr other) (\<lambda>c.
      ebind (item (mt_cuts Q) i) (\<lambda>m.
      ebind (item (w_cuts Q) i) (\<lambda>w.
      ebind (item (rt_cuts Q) i) (\<lambda>r.
        Inr (Q\<lparr>cutoff := c, mt_cut := Some (One m), w_cut := Some (One w),
                rt_cut := Some (One r)\<rparr>))))))"

text \<open>
  Lines 614 to 619: tag 0 is a swap and tag 1 a distillation of the link with itself; any
  other step falls through both branches.
\<close>

definition apply_operation ::
  "kernels \<Rightarrow> simulator \<Rightarrow> parameters \<Rightarrow> token \<Rightarrow> link \<Rightarrow> error + link" where
  "apply_operation K sim Q operation st =
     (if operation = Tag 0 then compute_unit K sim Q (fst st) (snd st) None None ''swap''
      else if operation = Tag 1 then compute_unit K sim Q (fst st) (snd st) None None ''dist''
      else Inr st)"

text \<open>
  The cache maps the parameters without \<open>t_trunc\<close>, with a prefix of the protocol in
  place of the protocol, to the link state after that prefix. The model writes 0 for the
  removed \<open>t_trunc\<close>. Python hashes and compares an integer and a float of the same
  value as equal, so a key does not tell an integer cut-off from a float one: the key
  holds the values of the cut-offs.
\<close>

type_synonym cache = "parameters \<rightharpoonup> link"

definition erase :: "cut \<Rightarrow> cut" where
  "erase c = (case c of One x \<Rightarrow> One (PFloat (num_val x))
                      | Many xs \<Rightarrow> Many (map (\<lambda>x. PFloat (num_val x)) xs))"

definition cache_key :: "parameters \<Rightarrow> token list \<Rightarrow> parameters" where
  "cache_key P prefix =
     P\<lparr>protocol := prefix, t_trunc := 0, cutoff := map_option erase (cutoff P),
       mt_cut := map_option erase (mt_cut P), w_cut := map_option erase (w_cut P),
       rt_cut := map_option erase (rt_cut P), tau := map_option erase (tau P)\<rparr>"

text \<open>
  \<^verbatim>\<open>check_cache\<close>, lines 493 to 518, without \<open>all_level\<close>: the prefixes are tried from
  the longest to the shortest, and the first one whose cached arrays have at least
  \<open>t_trunc\<close> samples is taken; without one the level is 0.
\<close>

fun check_from :: "cache \<Rightarrow> parameters \<Rightarrow> nat \<Rightarrow> nat \<times> link option" where
  "check_from C P 0 = (0, None)"
| "check_from C P (Suc n) =
     (case C (cache_key P (take (Suc n) (protocol P))) of
        Some v \<Rightarrow> if t_trunc P \<le> int (length (fst v)) then (Suc n, Some v) else check_from C P n
      | None \<Rightarrow> check_from C P n)"

definition check_cache :: "cache \<Rightarrow> parameters \<Rightarrow> nat \<times> link option" where
  "check_cache C P = check_from C P (length (protocol P))"

text \<open>
  The loop of lines 600 to 628 over the steps that are left, with the cache as state. An
  error ends the call; what the earlier steps stored stays in the cache.
\<close>

definition nested_step ::
  "kernels \<Rightarrow> simulator \<Rightarrow> parameters \<Rightarrow> nat \<Rightarrow> link \<Rightarrow> error + link" where
  "nested_step K sim P i st =
     ebind (step_parameters P i) (\<lambda>Q. apply_operation K sim Q (protocol P ! i) st)"

fun run_steps ::
  "kernels \<Rightarrow> simulator \<Rightarrow> parameters \<Rightarrow> cache \<Rightarrow> link \<Rightarrow> nat list \<Rightarrow> cache \<times> (error + link)" where
  "run_steps K sim P C st [] = (C, Inr st)"
| "run_steps K sim P C st (i # rest) =
     (case nested_step K sim P i st of
        Inl e \<Rightarrow> (C, Inl e)
      | Inr st' \<Rightarrow>
          run_steps K sim P
            (if use_cache sim then C(cache_key P (take (Suc i) (protocol P)) \<mapsto> st') else C)
            st' rest)"

text \<open>
  The cache key is hashed through the items of the dictionary (\<^verbatim>\<open>HashableParameters\<close>,
  lines 29 to 45): numbers, strings and tuples (the sequences of the model) can be
  hashed, a \<open>cutoff_dict\<close> (a dictionary) cannot, and the first look-up raises TypeError.
\<close>

definition hashable :: "parameters \<Rightarrow> bool" where
  "hashable P = (cutoff_dict P = None)"

text \<open>
  \<^verbatim>\<open>nested_protocol\<close>, lines 520 to 635, without \<open>all_level\<close>. With a cache and a
  nonempty protocol the parameters are hashed before anything is computed.
\<close>

definition nested_protocol ::
  "kernels \<Rightarrow> simulator \<Rightarrow> cache \<Rightarrow> parameters \<Rightarrow> cache \<times> (error + link)" where
  "nested_protocol K sim C P =
     (if use_cache sim \<and> protocol P \<noteq> [] \<and> \<not> hashable P then (C, Inl TypeError)
      else
        let (i, cached_result) = (if use_cache sim then check_cache C P else (0, None))
        in case (case cached_result of Some v \<Rightarrow> Inr v | None \<Rightarrow> first_link P) of
             Inl e \<Rightarrow> (C, Inl e)
           | Inr st \<Rightarrow> run_steps K sim P C st [i..<length (protocol P)])"

section \<open>The asymmetric drivers\<close>

text \<open>Python's list indexing: a negative index counts from the end.\<close>

definition py_index :: "'a list \<Rightarrow> int \<Rightarrow> error + nat" where
  "py_index xs i =
     (if 0 \<le> i \<and> i < int (length xs) then Inr (nat i)
      else if i < 0 \<and> - int (length xs) \<le> i then Inr (nat (int (length xs) + i))
      else Inl IndexError)"

definition py_get :: "'a list \<Rightarrow> int \<Rightarrow> error + 'a" where
  "py_get xs i = ebind (py_index xs i) (\<lambda>j. Inr (xs ! j))"

definition py_set :: "'a list \<Rightarrow> int \<Rightarrow> 'a \<Rightarrow> error + 'a list" where
  "py_set xs i v = ebind (py_index xs i) (\<lambda>j. Inr (xs[j := v]))"

text \<open>
  \<^verbatim>\<open>int(step[1:])\<close> on ASCII text: surrounding whitespace, an optional sign, and
  decimal digits with single underscores between them; anything else raises ValueError.
\<close>

definition is_space :: "char \<Rightarrow> bool" where
  "is_space c = (c \<in> set [CHR '' '', CHR 0x09, CHR 0x0A, CHR 0x0B, CHR 0x0C, CHR 0x0D])"

definition is_digit :: "char \<Rightarrow> bool" where
  "is_digit c = (c \<in> set ''0123456789'')"

definition digit_val :: "char \<Rightarrow> nat" where
  "digit_val c = of_char c - of_char CHR ''0''"

fun well_grouped :: "string \<Rightarrow> bool" where
  "well_grouped [] = False"
| "well_grouped [c] = is_digit c"
| "well_grouped (c # d # cs) =
     (is_digit c \<and> (if d = CHR ''_'' then well_grouped cs else well_grouped (d # cs)))"

definition digits_value :: "string \<Rightarrow> nat" where
  "digits_value cs = foldl (\<lambda>n c. 10 * n + digit_val c) 0 (filter is_digit cs)"

definition parse_int :: "string \<Rightarrow> error + int" where
  "parse_int s =
     (let t = rev (dropWhile is_space (rev (dropWhile is_space s)));
          (sign, body) = (case t of
                            c # cs \<Rightarrow> if c = CHR ''-'' then (- 1, cs)
                                      else if c = CHR ''+'' then (1, cs) else (1, t)
                          | [] \<Rightarrow> (1, t))
      in if well_grouped body then Inr (sign * int (digits_value body)) else Inl ValueError)"

text \<open>
  \<^verbatim>\<open>find_right_segment\<close>, lines 638 to 644: the first index after \<open>start_index\<close>
  whose segment is not \<open>None\<close>, or ValueError when the end of the list is reached.
\<close>

function find_from :: "'a option list \<Rightarrow> int \<Rightarrow> error + int" where
  "find_from segments r_segm =
     (if r_segm < int (length segments) then
        (case py_get segments r_segm of
           Inl e \<Rightarrow> Inl e
         | Inr None \<Rightarrow> find_from segments (r_segm + 1)
         | Inr (Some s) \<Rightarrow> Inr r_segm)
      else Inl ValueError)"
  by pat_completeness auto
termination
  by (relation "measure (\<lambda>(segments, r_segm). nat (int (length segments) - r_segm))") auto

definition find_right_segment :: "'a option list \<Rightarrow> int \<Rightarrow> error + int" where
  "find_right_segment segments start_index = find_from segments (start_index + 1)"

text \<open>
  A step of the asymmetric protocol is a string: its first character is the operation and
  the rest the index of the segment. An integer step cannot be subscripted, and an empty
  string has no first character.
\<close>

definition parse_step :: "token \<Rightarrow> error + (char \<times> int)" where
  "parse_step step =
     (case step of
        Tag n \<Rightarrow> Inl TypeError
      | Str [] \<Rightarrow> Inl IndexError
      | Str (operation # rest) \<Rightarrow> ebind (parse_int rest) (\<lambda>idx. Inr (operation, idx)))"

text \<open>
  Lines 710 to 727 of \<^verbatim>\<open>asymmetric_protocol\<close>, one step: a swap joins the segment at
  \<open>idx\<close> with the next live segment to its right, stores the result there and sets the
  segment at \<open>idx\<close> to \<open>None\<close>; a distillation replaces the segment at \<open>idx\<close>.
  Unpacking a segment that is \<open>None\<close> raises TypeError.
\<close>

definition unpack :: "'a option \<Rightarrow> error + 'a" where
  "unpack s = (case s of None \<Rightarrow> Inl TypeError | Some x \<Rightarrow> Inr x)"

definition asymmetric_step ::
  "kernels \<Rightarrow> simulator \<Rightarrow> parameters \<Rightarrow> link option list \<Rightarrow> token \<Rightarrow> error + link option list"
where
  "asymmetric_step K sim P segments step =
     ebind (parse_step step) (\<lambda>(operation, idx).
     ebind (py_get segments idx) (\<lambda>curr_segment.
       if operation = CHR ''s'' then
         ebind (find_right_segment segments idx) (\<lambda>next_idx.
         ebind (py_get segments next_idx) (\<lambda>next_segment.
         ebind (unpack curr_segment) (\<lambda>(pmf1, w1).
         ebind (unpack next_segment) (\<lambda>(pmf2, w2).
         ebind (compute_unit K sim P pmf1 w1 (Some pmf2) (Some w2) ''swap'') (\<lambda>r.
         ebind (py_set segments idx None) (\<lambda>segments'.
           py_set segments' next_idx (Some r)))))))
       else if operation = CHR ''d'' then
         ebind (unpack curr_segment) (\<lambda>(pmf1, w1).
         ebind (compute_unit K sim P pmf1 w1 None None ''dist'') (\<lambda>r.
           py_set segments idx (Some r)))
       else Inr segments))"

fun asymmetric_steps ::
  "kernels \<Rightarrow> simulator \<Rightarrow> parameters \<Rightarrow> link option list \<Rightarrow> token list
     \<Rightarrow> error + link option list" where
  "asymmetric_steps K sim P segments [] = Inr segments"
| "asymmetric_steps K sim P segments (step # rest) =
     ebind (asymmetric_step K sim P segments step)
       (\<lambda>segments'. asymmetric_steps K sim P segments' rest)"

text \<open>The first segment that is not \<open>None\<close>, as line 729 returns it.\<close>

definition first_live :: "'a option list \<Rightarrow> 'a option" where
  "first_live segments = (case filter (\<lambda>s. s \<noteq> None) segments of [] \<Rightarrow> None | s # rest \<Rightarrow> s)"

text \<open>
  The heterogeneous driver, lines 732 to 792. A segment carries its two end nodes; a
  swap needs the segments to be adjacent (an assertion) and passes the coherence times of
  the three nodes involved, a distillation those of the two end nodes. The driver does
  not change the simulator: the assignment \<^verbatim>\<open>self.efficient = False\<close> of line 737 is
  commented out.
\<close>

type_synonym segment = "link \<times> nat \<times> nat"

definition coherence_item :: "coherence option \<Rightarrow> nat \<Rightarrow> error + real" where
  "coherence_item t_cohs i =
     (case t_cohs of Some (TList ts) \<Rightarrow> item ts i | _ \<Rightarrow> Inl TypeError)"

definition heterogeneous_step ::
  "kernels \<Rightarrow> simulator \<Rightarrow> parameters \<Rightarrow> coherence option \<Rightarrow> segment option list \<Rightarrow> token
     \<Rightarrow> error + segment option list" where
  "heterogeneous_step K sim P t_cohs segments step =
     ebind (parse_step step) (\<lambda>(operation, idx).
     ebind (py_get segments idx) (\<lambda>curr_segment.
       if operation = CHR ''s'' then
         ebind (find_right_segment segments idx) (\<lambda>next_idx.
         ebind (py_get segments next_idx) (\<lambda>next_segment.
         ebind (unpack curr_segment) (\<lambda>((pmf1, w1), l1, r1).
         ebind (unpack next_segment) (\<lambda>((pmf2, w2), l2, r2).
           if r1 \<noteq> l2 then Inl AssertionError
           else
             ebind (coherence_item t_cohs l1) (\<lambda>ta.
             ebind (coherence_item t_cohs l2) (\<lambda>tb.
             ebind (coherence_item t_cohs r2) (\<lambda>tc.
             ebind (compute_unit K sim (P\<lparr>t_coh := Some (TList [ta, tb, tc])\<rparr>)
                      pmf1 w1 (Some pmf2) (Some w2) ''swap'') (\<lambda>r.
             ebind (py_set segments idx None) (\<lambda>segments'.
               py_set segments' next_idx (Some (r, l1, r2)))))))))))
       else if operation = CHR ''d'' then
         ebind (unpack curr_segment) (\<lambda>((pmf1, w1), l1, r1).
         ebind (coherence_item t_cohs l1) (\<lambda>ta.
         ebind (coherence_item t_cohs r1) (\<lambda>tb.
         ebind (compute_unit K sim (P\<lparr>t_coh := Some (TList [ta, tb])\<rparr>)
                  pmf1 w1 None None ''dist'') (\<lambda>r.
           py_set segments idx (Some (r, l1, r1))))))
       else Inr segments))"

text \<open>
  After a step the driver's dictionary keeps the coherence times of that step; a step
  that is neither a swap nor a distillation leaves it as it was. The list \<open>t_cohs\<close> is
  read once, before the loop, so the later steps do not depend on it; the model passes
  the parameters of the call to every step. Reading a coherence time from a number
  raises TypeError.
\<close>

fun heterogeneous_steps ::
  "kernels \<Rightarrow> simulator \<Rightarrow> parameters \<Rightarrow> coherence option \<Rightarrow> segment option list \<Rightarrow> token list
     \<Rightarrow> error + segment option list" where
  "heterogeneous_steps K sim P t_cohs segments [] = Inr segments"
| "heterogeneous_steps K sim P t_cohs segments (step # rest) =
     ebind (heterogeneous_step K sim P t_cohs segments step)
       (\<lambda>segments'. heterogeneous_steps K sim P t_cohs segments' rest)"

text \<open>
  Lines 759 to 764, the elementary segments: segment \<open>i\<close> reads \<open>p_gens[i]\<close> and
  \<open>w0s[i]\<close>, which fails on a number (TypeError) and beyond the end of a sequence
  (IndexError).
\<close>

definition heterogeneous_segments :: "parameters \<Rightarrow> int \<Rightarrow> error + segment option list" where
  "heterogeneous_segments P number_of_segments =
     (if number_of_segments \<le> 0 then Inr []
      else (case p_gen P of
              Scalar p \<Rightarrow> Inl TypeError
            | Vector p_gens \<Rightarrow>
                if p_gens = [] then Inl IndexError
                else (case w0 P of
                        Scalar w \<Rightarrow> Inl TypeError
                      | Vector w0s \<Rightarrow>
                          if length p_gens < nat number_of_segments
                               \<or> length w0s < nat number_of_segments
                          then Inl IndexError
                          else Inr (map (\<lambda>i. Some (elementary_link (p_gens ! i) (w0s ! i)
                                                    (t_trunc P), i, Suc i))
                                        [0..<nat number_of_segments]))))"

definition asymmetric_heterogeneous_protocol ::
  "kernels \<Rightarrow> simulator \<Rightarrow> parameters \<Rightarrow> int \<Rightarrow> error + link option" where
  "asymmetric_heterogeneous_protocol K sim P number_of_segments =
     (if t_coh P = None then Inl KeyError
      else
        ebind (heterogeneous_segments P number_of_segments) (\<lambda>segments.
        ebind (heterogeneous_steps K sim P (t_coh P) segments (protocol P)) (\<lambda>segments'.
          Inr (map_option fst (first_live segments')))))"

text \<open>
  \<^verbatim>\<open>validate_heterogeneous_parameters\<close>, lines 647 to 656. A missing \<open>t_coh\<close> is a
  KeyError.
\<close>

definition validate_heterogeneous_parameters :: "parameters \<Rightarrow> int \<Rightarrow> error + unit" where
  "validate_heterogeneous_parameters P number_of_segments =
     (case w0 P of
        Scalar w \<Rightarrow> Inl ValueError
      | Vector w0s \<Rightarrow>
          (case t_coh P of
             None \<Rightarrow> Inl KeyError
           | Some (TList t_cohs) \<Rightarrow>
               (case p_gen P of
                  Scalar p \<Rightarrow>
                    if int (length w0s) \<noteq> number_of_segments then Inl ValueError
                    else Inl TypeError
                | Vector p_gens \<Rightarrow>
                    if int (length w0s) \<noteq> number_of_segments
                         \<or> int (length p_gens) \<noteq> number_of_segments
                      then Inl ValueError
                    else if int (length t_cohs) \<noteq> number_of_segments + 1 then Inl ValueError
                    else Inr ())
           | Some other \<Rightarrow> Inl ValueError))"

text \<open>
  \<^verbatim>\<open>asymmetric_protocol\<close>, lines 659 to 729. A sequence for \<open>p_gen\<close> selects the
  heterogeneous driver, which refuses the keys \<open>cutoff\<close> and \<open>all_level\<close>. Otherwise
  every segment starts as the elementary link, which is built once per segment: with no
  segment it is not built at all.
\<close>

definition asymmetric_protocol ::
  "kernels \<Rightarrow> simulator \<Rightarrow> parameters \<Rightarrow> int \<Rightarrow> error + link option" where
  "asymmetric_protocol K sim P number_of_segments =
     (case p_gen P of
        Vector p_gens \<Rightarrow>
          ebind (validate_heterogeneous_parameters P number_of_segments) (\<lambda>_.
            if cutoff P \<noteq> None then Inl NotImplementedError
            else if all_level P \<noteq> None then Inl NotImplementedError
            else asymmetric_heterogeneous_protocol K sim P number_of_segments)
      | Scalar p \<Rightarrow>
          ebind (if number_of_segments \<le> 0 then Inr []
                 else ebind (first_link P)
                        (\<lambda>st. Inr (replicate (nat number_of_segments) (Some st))))
            (\<lambda>segments.
          ebind (asymmetric_steps K sim P segments (protocol P))
            (\<lambda>segments'. Inr (first_live segments'))))"

text \<open>
  \<^verbatim>\<open>repeater_sim\<close>, lines 806 to 821: a protocol of integers only goes to the symmetric
  driver, a protocol of strings only to the asymmetric driver, both on a new simulator
  without a cache. \<^verbatim>\<open>checkAsymProtocol\<close>, which gives the number of segments, is not
  among the sources; it is the parameter \<open>check\<close>.
\<close>

fun is_tag :: "token \<Rightarrow> bool" where
  "is_tag (Tag n) = True"
| "is_tag (Str s) = False"

definition repeater_sim ::
  "kernels \<Rightarrow> (token list \<Rightarrow> error + int) \<Rightarrow> parameters \<Rightarrow> error + link option" where
  "repeater_sim K check P =
     (if list_all is_tag (protocol P)
        then map_sum id Some (snd (nested_protocol K (new_simulator False) Map.empty P))
      else if list_all (\<lambda>t. \<not> is_tag t) (protocol P)
        then ebind (check (protocol P))
               (\<lambda>number_of_segments.
                  asymmetric_protocol K (new_simulator False) P number_of_segments)
      else Inl ValueError)"

section \<open>The statements the specification makes, as definitions\<close>

text \<open>
  The shifted array of the specification: \<open>f_shifted[t] = f[t - shift]\<close>, zero-padded
  on the left.
\<close>

definition f_shifted :: "real list \<Rightarrow> nat \<Rightarrow> nat \<Rightarrow> real list" where
  "f_shifted f trunc shift = map (\<lambda>t. if t < shift then 0 else nth0 f (t - shift)) [0..<trunc]"

text \<open>
  The convolution cut to \<open>trunc\<close> samples, the \<open>k\<close>-fold convolution \<open>g \<^emph> f\<^sup>k\<close>, and
  the geometric series with the coefficient \<open>p \<cdot> (1 - p)\<^sup>k\<close> on its \<open>k\<close>-th term.
\<close>

definition conv_trunc :: "real list \<Rightarrow> real list \<Rightarrow> nat \<Rightarrow> real list" where
  "conv_trunc a v trunc = map (\<lambda>n. \<Sum>m\<leftarrow>[0..<Suc n]. nth0 a m * nth0 v (n - m)) [0..<trunc]"

fun conv_power :: "real list \<Rightarrow> real list \<Rightarrow> nat \<Rightarrow> nat \<Rightarrow> real list" where
  "conv_power g f trunc 0 = g"
| "conv_power g f trunc (Suc k) = conv_trunc (conv_power g f trunc k) f trunc"

definition geometric_series :: "real \<Rightarrow> real list \<Rightarrow> real list \<Rightarrow> nat \<Rightarrow> nat \<Rightarrow> real list" where
  "geometric_series p g f trunc K =
     map (\<lambda>t. p * nth0 g t + (\<Sum>k\<leftarrow>[1..<K]. p * (1 - p) ^ k * nth0 (conv_power g f trunc k) t))
         [0..<trunc]"

text \<open>
  The series as the specification words it: the term of \<open>g \<^emph> f\<^sup>k\<close> for
  \<open>k = 1 \<dots> K\<close> carries \<open>p \<cdot> (1 - p)\<^sup>k\<^sup>-\<^sup>1\<close>.
\<close>

definition claimed_series :: "real \<Rightarrow> real list \<Rightarrow> real list \<Rightarrow> nat \<Rightarrow> nat \<Rightarrow> real list" where
  "claimed_series p g f trunc K =
     map (\<lambda>t. p * nth0 g t + (\<Sum>k\<leftarrow>[1..<Suc K]. p * (1 - p) ^ (k - 1) * nth0 (conv_power g f trunc k) t))
         [0..<trunc]"

text \<open>A simulator with \<^verbatim>\<open>use_fft = False\<close>, otherwise as constructed.\<close>

definition exact_simulator :: simulator where
  "exact_simulator = (new_simulator False)\<lparr>use_fft := False\<rparr>"

text \<open>
  Running the symmetric driver without memoization.
\<close>

definition plain_protocol :: "kernels \<Rightarrow> simulator \<Rightarrow> parameters \<Rightarrow> error + link" where
  "plain_protocol K sim P = snd (nested_protocol K (sim\<lparr>use_cache := False\<rparr>) Map.empty P)"

text \<open>
  The cache that a simulator holds after the calls \<open>Qs\<close> of the symmetric driver, in
  this order, when it held \<open>C\<close> before them. A call that raises leaves what it stored.
\<close>

fun fill :: "kernels \<Rightarrow> simulator \<Rightarrow> cache \<Rightarrow> parameters list \<Rightarrow> cache" where
  "fill K sim C [] = C"
| "fill K sim C (Q # Qs) = fill K sim (fst (nested_protocol K sim C Q)) Qs"

text \<open>
  Two calls are the same up to the protocol and \<open>t_trunc\<close>, the two entries that the
  cache key replaces. An earlier call \<open>Q\<close> clashes with a call \<open>P\<close> when the two have
  the same cache keys without being the same up to the protocol and \<open>t_trunc\<close>: they
  differ in the numeric type of a cut-off only, such as \<open>mt_cut = 5\<close> and
  \<open>mt_cut = 5.0\<close>.
\<close>

definition same_call :: "parameters \<Rightarrow> parameters \<Rightarrow> bool" where
  "same_call P Q = (Q\<lparr>protocol := protocol P, t_trunc := t_trunc P\<rparr> = P)"

definition clashes :: "parameters \<Rightarrow> parameters \<Rightarrow> bool" where
  "clashes P Q = (cache_key Q [] = cache_key P [] \<and> \<not> same_call P Q)"

text \<open>
  The invariant of the cache for the calls that are the same as \<open>P\<close> up to the protocol
  and \<open>t_trunc\<close>: every entry under a key of \<open>P\<close> is what the driver without
  memoization returns for that prefix at one of the horizons \<open>Ts\<close>.
\<close>

definition resumable :: "kernels \<Rightarrow> simulator \<Rightarrow> parameters \<Rightarrow> int set \<Rightarrow> cache \<Rightarrow> bool" where
  "resumable K sim P Ts C =
     (\<forall>pre v. C (cache_key P pre) = Some v \<longrightarrow>
        (\<exists>T\<in>Ts. plain_protocol K sim (P\<lparr>protocol := pre, t_trunc := T\<rparr>) = Inr v))"

text \<open>
  The cut-offs of step \<open>i\<close> can be read: a sequence under the key \<open>cutoff\<close> and the
  three per-step cut-offs have an entry at \<open>i\<close>.
\<close>

definition long_enough :: "cut option \<Rightarrow> nat \<Rightarrow> bool" where
  "long_enough c i = (case c of Some (Many xs) \<Rightarrow> i < length xs | other \<Rightarrow> True)"

definition cuts_readable :: "parameters \<Rightarrow> nat \<Rightarrow> bool" where
  "cuts_readable P i =
     (let Q = rename_tau P
      in long_enough (cutoff Q) i \<and> i < length (mt_cuts Q) \<and> i < length (w_cuts Q)
         \<and> i < length (rt_cuts Q))"

text \<open>
  What the engine relies on from a kernel: its array has the length of the first input, and
  its sample at index 0 is 0 (``0-th element has 0 pmf'', line 299).
\<close>

definition keeps_length :: "join_links \<Rightarrow> bool" where
  "keeps_length J =
     (\<forall>pmf1 pmf2 w1 w2 ycut c ct tag tc r.
        J pmf1 pmf2 w1 w2 ycut c ct tag tc = Inr r \<longrightarrow> length r = length pmf1)"

definition zero_origin :: "join_links \<Rightarrow> bool" where
  "zero_origin J =
     (\<forall>pmf1 pmf2 w1 w2 ycut c ct tag tc r.
        J pmf1 pmf2 w1 w2 ycut c ct tag tc = Inr r \<longrightarrow> nth0 r 0 = 0)"

text \<open>
  Modelled from the spec: the join-links kernel of \<^verbatim>\<open>protocol_units.py\<close> and
  \<^verbatim>\<open>protocol_units_efficient.py\<close>, which are not among the sources, after section 4.1 of
  the specification, for a homogeneous coherence time. The arrays must have equal
  length and the cut-off type and the tag must be known (a configuration error otherwise).
  A pair of delivery times \<open>(t1, t2)\<close>, both at least 1, passes a memory-time cut-off when
  \<open>|t1 - t2| \<le> mt_cut\<close>, a run-time cut-off when \<open>max(t1, t2) \<le> rt_cut\<close>, and a
  fidelity cut-off when the Werner parameter of the link that arrived first, decayed by
  \<open>exp(-|t1 - t2| / t_coh)\<close>, is not below \<open>w_cut\<close>. The success branch (\<open>ycut\<close>)
  sums \<open>pmf1[t1] \<cdot> pmf2[t2]\<close> times the weight of the tag over the passing pairs that
  complete at \<open>t = max(t1, t2)\<close>; the failure branch sums over the failing pairs, entered
  at the arrival of the first link, \<open>min(t1, t2)\<close>. Both kernels compute the same
  quantity (the efficient path is an optimisation).
\<close>

definition decay :: "coherence \<Rightarrow> nat \<Rightarrow> nat \<Rightarrow> real" where
  "decay tc t1 t2 =
     (case tc of TScalar t \<Rightarrow> exp (- \<bar>real t1 - real t2\<bar> / t) | _ \<Rightarrow> 1)"

definition passes :: "string \<Rightarrow> real \<Rightarrow> coherence \<Rightarrow> real list \<Rightarrow> real list \<Rightarrow> nat \<Rightarrow> nat \<Rightarrow> bool" where
  "passes ct c tc w1 w2 t1 t2 =
     (if ct = ''memory_time'' then \<bar>real t1 - real t2\<bar> \<le> c
      else if ct = ''run_time'' then real (max t1 t2) \<le> c
      else (if t1 \<le> t2 then nth0 w1 t1 else nth0 w2 t2) * decay tc t1 t2 \<ge> c)"

definition weight :: "string \<Rightarrow> coherence \<Rightarrow> real list \<Rightarrow> real list \<Rightarrow> nat \<Rightarrow> nat \<Rightarrow> real" where
  "weight tag tc w1 w2 t1 t2 =
     (let w1w2 = nth0 w1 t1 * nth0 w2 t2 * decay tc t1 t2
      in if tag = ''1'' then 1
         else if tag = ''w1w2'' then w1w2
         else if tag = ''0.5+0.5w1w2'' then 1 / 2 + w1w2 / 2
         else if tag = ''0.5-0.5w1w2'' then 1 / 2 - w1w2 / 2
         else nth0 w1 t1 + nth0 w2 t2 + 4 * w1w2)"

definition join_sum ::
  "bool \<Rightarrow> (nat \<Rightarrow> nat \<Rightarrow> bool) \<Rightarrow> (nat \<Rightarrow> nat \<Rightarrow> real) \<Rightarrow> real list \<Rightarrow> real list \<Rightarrow> nat \<Rightarrow> real"
where
  "join_sum ycut sel wt pmf1 pmf2 t =
     (\<Sum>t1\<leftarrow>[1..<length pmf1]. \<Sum>t2\<leftarrow>[1..<length pmf1].
        if (if ycut then max t1 t2 else min t1 t2) = t \<and> sel t1 t2 = ycut
        then nth0 pmf1 t1 * nth0 pmf2 t2 * wt t1 t2 else 0)"

definition join_links_spec :: join_links where
  "join_links_spec pmf1 pmf2 w1 w2 ycut c ct tag tc =
     (if \<not> (length pmf2 = length pmf1 \<and> length w1 = length pmf1 \<and> length w2 = length pmf1)
        then Inl ValueError
      else if ct \<notin> {''memory_time'', ''fidelity'', ''run_time''} then Inl ValueError
      else if tag \<notin> {''1'', ''w1w2'', ''0.5+0.5w1w2'', ''0.5-0.5w1w2'', ''w1+w2+4w1w2''}
        then Inl ValueError
      else (case (c, tc) of
              (Many xs, _) \<Rightarrow> Inl TypeError
            | (One x, TList ts) \<Rightarrow> Inl ValueError
            | (One x, _) \<Rightarrow>
                Inr (map (join_sum ycut (passes ct (num_val x) tc w1 w2) (weight tag tc w1 w2)
                            pmf1 pmf2)
                         [0..<length pmf1])))"

definition spec_kernels :: kernels where
  "spec_kernels = \<lparr>join_links_efficient = join_links_spec, join_links_compatible = join_links_spec\<rparr>"

text \<open>
  The parameters of scenario S1 of the specification, with a horizon of 2 steps, a perfect
  initial Werner parameter, and no coherence time given.
\<close>

definition base_parameters :: parameters where
  "base_parameters =
     \<lparr>protocol = [], p_gen = Scalar (1 / 2), p_swap = 1 / 2, w0 = Scalar 1, t_coh = None,
      t_trunc = 2, cut_type = None, cutoff = None, mt_cut = None, w_cut = None, rt_cut = None,
      tau = None, cutoff_dict = None, all_level = None\<rparr>"

text \<open>
  A simulator with a cache on the exact-convolution path, the parameters of one swap with
  \<open>p_swap = 1\<close> at a horizon \<open>T\<close>, and the cache that a run at the horizon 3 leaves.
\<close>

definition cached_simulator :: simulator where
  "cached_simulator = exact_simulator\<lparr>use_cache := True\<rparr>"

definition swap_parameters :: "int \<Rightarrow> parameters" where
  "swap_parameters T = base_parameters\<lparr>protocol := [Tag 0], p_swap := 1, t_trunc := T\<rparr>"

definition cache_at_3 :: cache where
  "cache_at_3 = [cache_key (swap_parameters 3) [Tag 0] \<mapsto> ([0, 1 / 4, 5 / 16], [0, 1, 1])]"

text \<open>
  The swap at the horizon 2 with a memory-time cut-off \<open>x\<close>, and the cache that a run
  with the integer cut-off 5 leaves.
\<close>

definition cut_parameters :: "pynum \<Rightarrow> parameters" where
  "cut_parameters x = (swap_parameters 2)\<lparr>mt_cut := Some (One x)\<rparr>"

definition cache_at_5 :: cache where
  "cache_at_5 = [cache_key (cut_parameters (PInt 5)) [Tag 0] \<mapsto> ([0, 1 / 4], [0, 1])]"

text \<open>
  A protocol of two steps with the tag 2 and a memory-time cut-off given as a sequence of
  one entry.
\<close>

definition short_cut_parameters :: parameters where
  "short_cut_parameters =
     base_parameters\<lparr>protocol := [Tag 2, Tag 2], mt_cut := Some (Many [PInt 5])\<rparr>"


section \<open>The shift of the iterated array (C7)\<close>

lemma take_shift_eq:
  assumes "length func = trunc" "s \<le> trunc"
  shows "take trunc (replicate s 0 @ func) = f_shifted func trunc s"
proof (rule nth_equalityI)
  show "length (take trunc (replicate s 0 @ func)) = length (f_shifted func trunc s)"
    using assms by (simp add: f_shifted_def)
next
  fix i assume "i < length (take trunc (replicate s 0 @ func))"
  then have i: "i < trunc" by simp
  show "take trunc (replicate s 0 @ func) ! i = f_shifted func trunc s ! i"
    using i assms by (auto simp add: f_shifted_def nth_append nth0_def)
qed


lemma shift_func_in_guard:
  assumes "length func = trunc" "0 \<le> shift" "shift \<le> int trunc"
  shows "shift_func func trunc shift = Inr (f_shifted func trunc (nat shift))"
  using assms take_shift_eq [of func trunc "nat shift"] by (simp add: shift_func_def)




section \<open>The series of the exact convolution (C6)\<close>

lemma length_conv_trunc [simp]: "length (conv_trunc a v trunc) = trunc"
  by (simp add: conv_trunc_def)

lemma length_conv_power: "length g = trunc \<Longrightarrow> length (conv_power g f trunc k) = trunc"
  by (cases k) simp_all

lemma conv_trunc_take:
  "conv_trunc (take trunc a) (take trunc v) trunc = conv_trunc a v trunc"
  unfolding conv_trunc_def
proof (rule map_cong [OF refl])
  fix n assume "n \<in> set [0..<trunc]"
  then have n: "n < trunc" by simp
  have "map (\<lambda>m. nth0 (take trunc a) m * nth0 (take trunc v) (n - m)) [0..<Suc n]
      = map (\<lambda>m. nth0 a m * nth0 v (n - m)) [0..<Suc n]"
    using n by (intro map_cong [OF refl]) (auto simp add: nth0_def)
  then show "(\<Sum>m\<leftarrow>[0..<Suc n]. nth0 (take trunc a) m * nth0 (take trunc v) (n - m))
      = (\<Sum>m\<leftarrow>[0..<Suc n]. nth0 a m * nth0 v (n - m))"
    by (rule arg_cong [where f = sum_list])
qed

lemma convolve_take:
  assumes "a \<noteq> []" "v \<noteq> []" "trunc \<le> length v"
  shows "\<exists>c. convolve a v = Inr c \<and> take trunc c = conv_trunc a v trunc
            \<and> length c = length a + length v - 1"
proof -
  have "trunc \<le> length a + length v - 1"
    using assms by (cases a) auto
  then have "min trunc (length a + length v - 1) = trunc" by simp
  then show ?thesis
    using assms by (simp add: convolve_def conv_trunc_def take_map)
qed

lemma conv_power_shift:
  "conv_power (conv_trunc a f trunc) f trunc j = conv_power a f trunc (Suc j)"
  by (induction j) simp_all

lemma sum_list_upt_shift:
  "(\<Sum>i\<leftarrow>[0..<Suc n]. h i) = h 0 + (\<Sum>i\<leftarrow>[0..<n]. (h (Suc i) :: real))"
proof -
  have "[0..<Suc n] = 0 # map Suc [0..<n]"
    by (simp add: upt_conv_Cons map_Suc_upt del: upt_Suc)
  then show ?thesis by (simp add: comp_def del: upt_Suc)
qed

lemma conv_loop_series:
  assumes "length f = trunc" "0 < trunc"
  shows "length s = trunc \<Longrightarrow> length c \<ge> trunc \<Longrightarrow>
     conv_loop ps trunc f ks c s =
       Inr (map (\<lambda>t. s ! t + (\<Sum>i\<leftarrow>[0..<length ks].
                 coeff ps (ks ! i) * conv_power (take trunc c) f trunc (Suc i) ! t))
              [0..<trunc])"
proof (induction ks arbitrary: c s)
  case Nil
  then have "map (\<lambda>t. s ! t) [0..<trunc] = s"
    using map_nth [of s] by simp
  then show ?case by simp
next
  case (Cons k ks)
  have ne: "take trunc c \<noteq> []" "take trunc f \<noteq> []" "trunc \<le> length (take trunc f)"
    using assms Cons.prems by auto
  obtain c' where c': "convolve (take trunc c) (take trunc f) = Inr c'"
      "take trunc c' = conv_trunc (take trunc c) (take trunc f) trunc"
      "length c' = length (take trunc c) + length (take trunc f) - 1"
    using convolve_take [OF ne] by blast
  have tc: "take trunc c' = conv_trunc (take trunc c) f trunc"
    using c'(2) conv_trunc_take [of trunc "take trunc c" f] by simp
  have lc: "trunc \<le> length c'"
    using c'(3) assms Cons.prems by simp
  let ?s' = "map (\<lambda>i. s ! i + coeff ps k * take trunc c' ! i) [0..<length s]"
  have add: "add_scaled s (coeff ps k) (take trunc c') = Inr ?s'"
    using Cons.prems by (simp add: add_scaled_def tc)
  have ls': "length ?s' = trunc" using Cons.prems by simp
  have step: "conv_loop ps trunc f (k # ks) c s = conv_loop ps trunc f ks c' ?s'"
    by (simp add: c'(1) add)
  have "conv_loop ps trunc f ks c' ?s' =
       Inr (map (\<lambda>t. ?s' ! t + (\<Sum>i\<leftarrow>[0..<length ks].
                 coeff ps (ks ! i) * conv_power (take trunc c) f trunc (Suc (Suc i)) ! t))
              [0..<trunc])"
    using Cons.IH [OF ls' lc] by (simp only: tc conv_power_shift)
  also have "map (\<lambda>t. ?s' ! t + (\<Sum>i\<leftarrow>[0..<length ks].
                 coeff ps (ks ! i) * conv_power (take trunc c) f trunc (Suc (Suc i)) ! t))
              [0..<trunc]
     = map (\<lambda>t. s ! t + (\<Sum>i\<leftarrow>[0..<length (k # ks)].
                 coeff ps ((k # ks) ! i) * conv_power (take trunc c) f trunc (Suc i) ! t))
              [0..<trunc]"
  proof (rule map_cong [OF refl])
    fix t assume "t \<in> set [0..<trunc]"
    then have t: "t < length s" using Cons.prems by simp
    have s't: "?s' ! t = s ! t + coeff ps k * conv_trunc (take trunc c) f trunc ! t"
      using t by (simp add: tc)
    have split: "(\<Sum>i\<leftarrow>[0..<length (k # ks)].
                 coeff ps ((k # ks) ! i) * conv_power (take trunc c) f trunc (Suc i) ! t)
       = coeff ps k * conv_trunc (take trunc c) f trunc ! t
         + (\<Sum>i\<leftarrow>[0..<length ks].
                 coeff ps (ks ! i) * conv_power (take trunc c) f trunc (Suc (Suc i)) ! t)"
      using sum_list_upt_shift [of "\<lambda>i. coeff ps ((k # ks) ! i)
                * conv_power (take trunc c) f trunc (Suc i) ! t" "length ks"]
      by (simp del: upt_Suc)
    show "?s' ! t + (\<Sum>i\<leftarrow>[0..<length ks].
                 coeff ps (ks ! i) * conv_power (take trunc c) f trunc (Suc (Suc i)) ! t)
       = s ! t + (\<Sum>i\<leftarrow>[0..<length (k # ks)].
                 coeff ps ((k # ks) ! i) * conv_power (take trunc c) f trunc (Suc i) ! t)"
      unfolding s't split by simp
  qed
  finally show ?case unfolding step .
qed

lemma sum_list_Suc_upt:
  "(\<Sum>i\<leftarrow>[0..<K - 1]. (h (Suc i) :: real)) = (\<Sum>k\<leftarrow>[1..<K]. h k)"
proof (cases K)
  case 0
  then show ?thesis by simp
next
  case (Suc n)
  have "[1..<Suc n] = map Suc [0..<n]"
    by (simp add: map_Suc_upt del: upt_Suc)
  then show ?thesis using Suc by (simp add: comp_def del: upt_Suc)
qed

text \<open>
  C6, as the code has it. With FFT disabled and \<open>p_swap\<close> supplied, the iterative
  convolution returns \<open>p_swap \<cdot> g\<close> plus, for every \<open>k\<close> from 1 to \<open>max_k - 1\<close>, the
  \<open>k\<close>-fold convolution \<open>g \<^emph> f\<^sup>k\<close> (cut to \<open>trunc\<close> samples) with the
  coefficient \<open>p_swap \<cdot> (1 - p_swap)\<^sup>k\<close>; no warning is logged on this path.
\<close>

theorem exact_series:
  assumes "\<not> use_fft sim" and "length func = trunc" and "length g = trunc" and "0 < trunc"
    and "0 \<le> shift" and "shift \<le> int trunc"
  shows "iterative_convolution_helper sim func g trunc shift (Some p) max_k =
           Inr (geometric_series p g (f_shifted func trunc (nat shift)) trunc (nat max_k), False)"
proof -
  let ?f = "f_shifted func trunc (nat shift)"
  let ?s = "map (\<lambda>x. p * x) g"
  have init: "init_sum (Some p) g trunc = Inr ?s"
    using assms by (simp add: init_sum_def scale_def)
  have sh: "shift_func func trunc shift = Inr ?f"
    using assms by (intro shift_func_in_guard)
  have lf: "length ?f = trunc" by (simp add: f_shifted_def)
  have loop: "conv_loop (Some p) trunc ?f [1..<nat max_k] g ?s =
       Inr (map (\<lambda>t. ?s ! t + (\<Sum>i\<leftarrow>[0..<length [1..<nat max_k]].
                 coeff (Some p) ([1..<nat max_k] ! i) * conv_power (take trunc g) ?f trunc (Suc i) ! t))
              [0..<trunc])"
    using assms by (intro conv_loop_series [OF lf]) simp_all
  have eq: "map (\<lambda>t. ?s ! t + (\<Sum>i\<leftarrow>[0..<length [1..<nat max_k]].
                 coeff (Some p) ([1..<nat max_k] ! i) * conv_power (take trunc g) ?f trunc (Suc i) ! t))
              [0..<trunc]
          = geometric_series p g ?f trunc (nat max_k)"
    unfolding geometric_series_def
  proof (rule map_cong [OF refl])
    fix t assume "t \<in> set [0..<trunc]"
    then have t: "t < trunc" by simp
    have a: "?s ! t = p * nth0 g t" using t assms by (simp add: nth0_def)
    have "map (\<lambda>i. coeff (Some p) ([1..<nat max_k] ! i) * conv_power (take trunc g) ?f trunc (Suc i) ! t)
              [0..<length [1..<nat max_k]]
        = map (\<lambda>i. p * (1 - p) ^ Suc i * nth0 (conv_power g ?f trunc (Suc i)) t) [0..<nat max_k - 1]"
      using t assms(3)
      by (intro map_cong) (simp_all add: coeff_def nth0_def length_conv_power del: conv_power.simps)
    then have "(\<Sum>i\<leftarrow>[0..<length [1..<nat max_k]].
                 coeff (Some p) ([1..<nat max_k] ! i) * conv_power (take trunc g) ?f trunc (Suc i) ! t)
        = (\<Sum>i\<leftarrow>[0..<nat max_k - 1]. p * (1 - p) ^ Suc i * nth0 (conv_power g ?f trunc (Suc i)) t)"
      by (rule arg_cong [where f = sum_list])
    also have "\<dots> = (\<Sum>k\<leftarrow>[1..<nat max_k]. p * (1 - p) ^ k * nth0 (conv_power g ?f trunc k) t)"
      by (rule sum_list_Suc_upt [of "\<lambda>k. p * (1 - p) ^ k * nth0 (conv_power g ?f trunc k) t" "nat max_k"])
    finally have b: "(\<Sum>i\<leftarrow>[0..<length [1..<nat max_k]].
                 coeff (Some p) ([1..<nat max_k] ! i) * conv_power (take trunc g) ?f trunc (Suc i) ! t)
        = (\<Sum>k\<leftarrow>[1..<nat max_k]. p * (1 - p) ^ k * nth0 (conv_power g ?f trunc k) t)" .
    show "?s ! t + (\<Sum>i\<leftarrow>[0..<length [1..<nat max_k]].
                 coeff (Some p) ([1..<nat max_k] ! i) * conv_power (take trunc g) ?f trunc (Suc i) ! t)
       = p * nth0 g t + (\<Sum>k\<leftarrow>[1..<nat max_k]. p * (1 - p) ^ k * nth0 (conv_power g ?f trunc k) t)"
      unfolding a b ..
  qed
  show ?thesis
    using assms(1,3) loop [unfolded eq]
    by (simp add: iterative_convolution_helper_def init sh exact_convolution_def)
qed

theorem exact_series_witness:
  "iterative_convolution_helper exact_simulator [0, 1/2, 1/4] [0, 1/2, 0] 3 0 (Some (1/2)) 3 =
     Inr (geometric_series (1/2) [0, 1/2, 0] (f_shifted [0, 1/2, 1/4] 3 0) 3 3, False)"
  using exact_series [of exact_simulator "[0, 1/2, 1/4]" 3 "[0, 1/2, 0]" 0 "1/2" 3]
  by (simp add: exact_simulator_def new_simulator_def)

lemma helper_exact_example:
  "iterative_convolution_helper exact_simulator [0, 1/2, 1/4] [0, 1/2, 0] 3 0 (Some (1/2)) 3
     = Inr ([0, 1/4, 1/16], False)"
  by (simp add: iterative_convolution_helper_def exact_simulator_def new_simulator_def init_sum_def
      scale_def shift_func_def exact_convolution_def convolve_def add_scaled_def coeff_def nth0_def
      upt_rec eval_nat_numeral)

lemma claimed_series_example:
  "claimed_series (1/2) [0, 1/2, 0] [0, 1/2, 1/4] 3 3 = [0, 1/4, 1/8]"
  by (simp add: claimed_series_def conv_trunc_def nth0_def upt_rec eval_nat_numeral)

text \<open>
  The claim as the specification words it, with the coefficient \<open>p_swap \<cdot> (1 - p_swap)\<^sup>k\<^sup>-\<^sup>1\<close>
  on the \<open>k\<close>-fold convolution for \<open>k = 1 \<dots> max_k\<close>, fails for \<open>p_swap = 1/2\<close>,
  \<open>g = [0, 1/2, 0]\<close>, \<open>f = [0, 1/2, 1/4]\<close>: the code returns \<open>1/16\<close> at index 2,
  the claimed series has \<open>1/8\<close> there.
\<close>

theorem exact_series_counterexample:
  "iterative_convolution_helper exact_simulator [0, 1/2, 1/4] [0, 1/2, 0] 3 0 (Some (1/2)) 3
     \<noteq> Inr (claimed_series (1/2) [0, 1/2, 0] [0, 1/2, 1/4] 3 3, False)"
  unfolding helper_exact_example claimed_series_example by simp

section \<open>The validity check of the Fourier path (C8)\<close>

lemma cis_quarter: "cis (- 2 * pi / real 4) = - \<i>" "cis (2 * pi / real 4) = \<i>"
  by (simp_all add: cis_minus_pi_half cis_pi_half)

lemma length_fft [simp]: "length (fft x n) = n"
  by (simp add: fft_def)

lemma length_ifft [simp]: "length (ifft y) = length y"
  by (simp add: ifft_def)

lemma fft_series_length: "fft_series func g p shape = Inr result \<Longrightarrow> length result = shape"
  by (auto simp add: fft_series_def Let_def split: if_splits)

lemma pow2_up_pos: "0 < p \<Longrightarrow> 0 < pow2_up fuel p n"
  by (induction fuel arbitrary: p) simp_all

lemma pow2_up_ge: "n \<le> p * 2 ^ fuel \<Longrightarrow> n \<le> pow2_up fuel p n"
proof (induction fuel arbitrary: p)
  case 0
  then show ?case by simp
next
  case (Suc fuel)
  have "n \<le> (2 * p) * 2 ^ fuel" using Suc.prems by (simp add: mult.assoc)
  then show ?case using Suc.IH [of "2 * p"] by simp
qed

lemma fft_shape_pos: "fft_shape z trunc = Inr shape \<Longrightarrow> 0 < shape"
  by (auto simp add: fft_shape_def pow2_up_pos split: option.splits if_splits)

lemma fft_shape_default_ge: "fft_shape None trunc = Inr shape \<Longrightarrow> trunc \<le> shape"
proof -
  assume a: "fft_shape None trunc = Inr shape"
  then have t: "0 < trunc" and s: "shape = pow2_up (2 * trunc - 1) 1 (2 * trunc - 1)"
    by (auto simp add: fft_shape_def split: if_splits)
  have "2 * trunc - 1 \<le> 1 * 2 ^ (2 * trunc - 1)"
    using less_exp [of "2 * trunc - 1"] by simp
  then have "2 * trunc - 1 \<le> shape" unfolding s by (rule pow2_up_ge)
  then show ?thesis using t by simp
qed

text \<open>
  C8, as the code has it. On the FFT path the zero-padding warning is logged if and only if
  the magnitude of the last sample of the whole inverse transform (index \<open>shape - 1\<close> of
  the padded array, before it is cut to \<open>trunc\<close> samples) exceeds \<open>10\<^sup>-\<^sup>1\<^sup>5\<close>; the first
  \<open>trunc\<close> samples are returned whether it is logged or not.
\<close>

theorem padding_check:
  assumes "use_fft sim"
    and "init_sum p g trunc = Inr s"
    and "shift_func func trunc shift = Inr f'"
    and "fft_shape (zero_padding_size sim) trunc = Inr shape"
    and "fft_series f' g p shape = Inr result"
  shows "iterative_convolution_helper sim func g trunc shift p max_k =
           Inr (map Re (take trunc result), cmod (result ! (shape - 1)) > 1 / 10 ^ 15)
         \<and> length result = shape \<and> 0 < shape"
proof -
  have len: "length result = shape" using assms(5) by (rule fft_series_length)
  have pos: "0 < shape" using assms(4) by (rule fft_shape_pos)
  have "result \<noteq> []" using len pos by auto
  then have "last result = result ! (shape - 1)"
    using len by (simp add: last_conv_nth)
  then show ?thesis
    using assms len pos
    by (simp add: iterative_convolution_helper_def fft_finish_def padding_warning_def)
qed

lemma fft_zero4: "fft [0, 0] 4 = [0, 0, 0, 0]"
  unfolding fft_def cis_quarter by (simp add: nth0_def eval_nat_numeral upt_rec)

lemma fft_delta4: "fft [0, 1] 4 = [1, - \<i>, - 1, \<i>]"
  unfolding fft_def cis_quarter by (simp add: nth0_def eval_nat_numeral upt_rec)

lemma ifft_delta4: "ifft [1, - \<i>, - 1, \<i>] = [0, 1, 0, 0]"
  unfolding ifft_def by (simp add: cis_pi_half eval_nat_numeral upt_rec)

lemma shape2: "fft_shape None 2 = Inr 4" "fft_shape None (Suc (Suc 0)) = Inr 4"
  by (simp_all add: fft_shape_def eval_nat_numeral)

lemma series_delta: "fft_series [0, 0] [0, 1] None 4 = Inr [0, 1, 0, 0]"
  by (simp add: fft_series_def fft_zero4 fft_delta4 fft_denominator_def ifft_delta4)

text \<open>
  The claim reads the check at index \<open>trunc - 1\<close> of the returned array. For
  \<open>first_func = [0, 1]\<close> and \<open>func = [0, 0]\<close> the returned array is \<open>[0, 1]\<close>, whose last
  sample has magnitude 1, and no warning is logged: the padded transform ends in 0.
\<close>

theorem padding_check_counterexample:
  "iterative_convolution_helper (new_simulator False) [0, 0] [0, 1] 2 0 None 2 = Inr ([0, 1], False)
     \<and> \<bar>[0, 1 :: real] ! (2 - 1)\<bar> > 1 / 10 ^ 15"
  by (simp add: iterative_convolution_helper_def new_simulator_def init_sum_def scale_def
      shift_func_def shape2 series_delta fft_finish_def padding_warning_def)

theorem padding_check_witness:
  "iterative_convolution_helper (new_simulator False) [0, 0] [0, 1] 2 0 None 2 =
     Inr (map Re (take 2 [0, 1, 0, 0]), cmod ([0, 1, 0, 0] ! (4 - 1)) > 1 / 10 ^ 15)"
  using padding_check [of "new_simulator False" None "[0, 1]" 2 "[0, 1]" "[0, 0]" 0 "[0, 0]" 4
      "[0, 1, 0, 0]" 2]
  by (simp add: new_simulator_def init_sum_def scale_def shift_func_def shape2 series_delta)


section \<open>The shift beyond the guard (C7, continued)\<close>





section \<open>The checks of compute_unit (C3)\<close>

text \<open>
  C3. The claim asks for a configuration error on every fidelity cut-off outside \<open>[0, 1)\<close>.
  The check of line 461 is \<^verbatim>\<open>not (cutoff >= 0. or cutoff < 1.)\<close>, which no number
  satisfies: the check passes for every number, and with the cut-offs \<open>-1/2\<close> and
  \<open>3/2\<close> \<^verbatim>\<open>compute_unit\<close> goes on to compute the swap with that cut-off.
\<close>

theorem fidelity_cutoff_unchecked:
  "check_fidelity_cutoff ''fidelity'' (One x) = Inr ()
   \<and> compute_unit K sim (base_parameters\<lparr>cut_type := Some ''fidelity'', w_cut := Some (One (PFloat (- 1 / 2)))\<rparr>)
         pmf w None None ''swap''
       = ebind (entanglement_swap K sim pmf w pmf w (1 / 2) (One (PFloat (- 1 / 2))) TInf ''fidelity'')
           (\<lambda>(pmf', w'). Inr (pmf', scrub w'))
   \<and> compute_unit K sim (base_parameters\<lparr>cut_type := Some ''fidelity'', cutoff := Some (One (PFloat (3 / 2)))\<rparr>)
         pmf w None None ''swap''
       = ebind (entanglement_swap K sim pmf w pmf w (1 / 2) (One (PFloat (3 / 2))) TInf ''fidelity'')
           (\<lambda>(pmf', w'). Inr (pmf', scrub w'))"
  by (simp add: check_fidelity_cutoff_def compute_unit_def base_parameters_def unit_t_coh_def
      unit_cut_type_def unit_cutoff_def get_or_def is_zero_def check_time_cutoff_def Let_def)
     linarith

section \<open>The shape of a unit's result (C1)\<close>

lemma iterative_convolution_length:
  "iterative_convolution sim f sh g p = Inr r \<Longrightarrow> length r = length f"
  unfolding iterative_convolution_def Let_def
  by (cases "required_k (length f) sh (case p of None \<Rightarrow> sum_list f | Some q \<Rightarrow> sum_list f * (1 - q))";
      cases "iterative_convolution_helper sim f (case g of None \<Rightarrow> f | Some g' \<Rightarrow> g') (length f) sh p
               (projr (required_k (length f) sh (case p of None \<Rightarrow> sum_list f | Some q \<Rightarrow> sum_list f * (1 - q))))")
     (auto split: if_splits)

lemma clamp_range: "0 \<le> clamp x \<and> clamp x \<le> 1"
  by (cases x) auto

lemma scrub_range: "x \<in> set (scrub ws) \<Longrightarrow> 0 \<le> x \<and> x \<le> 1"
  using clamp_range by (auto simp add: scrub_def)

lemma length_scrub [simp]: "length (scrub ws) = length ws"
  by (simp add: scrub_def nan_to_one_def)

lemma divide_tail_length: "divide_tail s p = Inr w \<Longrightarrow> length w = length p"
  by (cases s) (auto simp add: divide_tail_def split: if_splits)

lemma ebind_Inr: "ebind m f = Inr y \<Longrightarrow> (\<exists>a. m = Inr a \<and> f a = Inr y)"
  by (cases m) simp_all


lemma ebind_InrE:
  assumes "ebind m f = Inr y"
  obtains a where "m = Inr a" and "f a = Inr y"
  using assms by (cases m) simp_all

lemma entanglement_swap_shape:
  assumes "entanglement_swap K sim pmf1 w1 pmf2 w2 q c tc ct = Inr (pmf, w)"
  shows "\<exists>pf. select_join_links K sim ct pmf1 pmf2 w1 w2 False c ct ''1'' tc = Inr pf
            \<and> length pmf = length pf \<and> length w = length pf"
  using assms unfolding entanglement_swap_def Let_def
  apply (elim ebind_InrE)
  apply (auto dest!: iterative_convolution_length divide_tail_length simp add: nan_to_one_def)
  done

lemma destillation_shape:
  assumes "destillation K sim pmf1 w1 pmf2 w2 c tc ct = Inr (pmf, w)"
  shows "\<exists>pf. select_join_links K sim ct pmf1 pmf2 w1 w2 False c ct ''1'' tc = Inr pf
            \<and> length pmf = length pf \<and> length w = length pf"
  using assms unfolding destillation_def Let_def
  apply (elim ebind_InrE)
  apply (auto dest!: iterative_convolution_length divide_tail_length simp add: nan_to_one_def)
  done


lemma convolve_origin:
  assumes "convolve a v = Inr r" and "nth0 a 0 = 0"
  shows "nth0 r 0 = 0 \<and> r \<noteq> []"
proof -
  have ne: "a \<noteq> []" "v \<noteq> []" using assms(1) by (auto simp add: convolve_def split: if_splits)
  then have "0 < length a + length v - 1" by (cases a; cases v) auto
  then show ?thesis
    using assms ne by (auto simp add: convolve_def nth0_def)
qed

lemma add_scaled_origin:
  assumes "add_scaled s k xs = Inr s'" and "nth0 s 0 = 0" and "nth0 xs 0 = 0"
  shows "nth0 s' 0 = 0 \<and> length s' = length s"
  using assms by (auto simp add: add_scaled_def nth0_def split: if_splits)

lemma nth0_take: "nth0 (take n xs) 0 = (if n = 0 then 0 else nth0 xs 0)"
  by (cases xs; cases n) (auto simp add: nth0_def)

lemma conv_loop_origin:
  "conv_loop q trunc f ks c s = Inr r \<Longrightarrow> nth0 c 0 = 0 \<Longrightarrow> nth0 s 0 = 0
     \<Longrightarrow> nth0 r 0 = 0"
proof (induction ks arbitrary: c s)
  case Nil
  then show ?case by simp
next
  case (Cons k ks)
  from Cons.prems(1) obtain c' where c': "convolve (take trunc c) (take trunc f) = Inr c'"
    by (cases "convolve (take trunc c) (take trunc f)") simp_all
  from Cons.prems(1) c' obtain s' where
    s': "add_scaled s (coeff q k) (take trunc c') = Inr s'"
    by (cases "add_scaled s (coeff q k) (take trunc c')") simp_all
  have rec: "conv_loop q trunc f ks c' s' = Inr r"
    using Cons.prems(1) c' s' by simp
  have "nth0 (take trunc c) 0 = 0" using Cons.prems(2) by (simp add: nth0_take)
  then have c0: "nth0 c' 0 = 0" using convolve_origin [OF c'] by simp
  then have "nth0 (take trunc c') 0 = 0" by (simp add: nth0_take)
  then have "nth0 s' 0 = 0" using add_scaled_origin [OF s' Cons.prems(3)] by simp
  then show ?case using Cons.IH [OF rec c0] by simp
qed

lemma helper_exact_origin:
  assumes "\<not> use_fft sim"
    and "iterative_convolution_helper sim f g trunc sh q k = Inr (r, warned)"
    and "nth0 g 0 = 0"
  shows "nth0 r 0 = 0"
proof -
  from assms(2) obtain s f' where
    s: "init_sum q g trunc = Inr s" and f': "shift_func f trunc sh = Inr f'"
    and ex: "exact_convolution f' g trunc q k s = Inr r"
    using assms(1) unfolding iterative_convolution_helper_def
    by (auto dest!: ebind_Inr split: if_splits)
  have g0: "nth0 (g @ replicate (trunc - length g) 0) 0 = 0"
    using assms(3) by (cases g) (auto simp add: nth0_def nth_append)
  have "nth0 (scale q g @ replicate (trunc - length g) 0) 0 = 0"
    using assms(3) by (cases g; cases q) (auto simp add: nth0_def nth_append scale_def)
  moreover have "s = take trunc (scale q g @ replicate (trunc - length g) 0)"
    using s by (simp add: init_sum_def del: take_append split: if_splits)
  ultimately have s0: "nth0 s 0 = 0"
    by (simp only: nth0_take if_cancel)
  show ?thesis
    using ex g0 s0 conv_loop_origin by (auto simp add: exact_convolution_def split: if_splits)
qed

lemma iterative_convolution_origin:
  assumes "\<not> use_fft sim"
    and "iterative_convolution sim f sh g q = Inr r"
    and "nth0 (case g of None \<Rightarrow> f | Some g' \<Rightarrow> g') 0 = 0"
  shows "nth0 r 0 = 0"
proof -
  let ?g = "case g of None \<Rightarrow> f | Some g' \<Rightarrow> g'"
  from assms(2) obtain k r' warned where
    h: "iterative_convolution_helper sim f ?g (length f) sh q k = Inr (r', warned)"
    and r: "(if length r' = length f then Inr r'
             else if length r' = 1 then Inr (replicate (length f) (r' ! 0))
             else Inl ValueError) = Inr r"
    unfolding iterative_convolution_def Let_def
    by (auto dest!: ebind_Inr split: if_splits)
  have r0: "nth0 r' 0 = 0" using helper_exact_origin [OF assms(1) h assms(3)] .
  show ?thesis
    using r r0 by (cases "length f") (auto simp add: nth0_def split: if_splits)
qed


lemma keeps_lengthD:
  "keeps_length J \<Longrightarrow> J pmf1 pmf2 w1 w2 ycut c ct tag tc = Inr r \<Longrightarrow> length r = length pmf1"
  unfolding keeps_length_def by blast

lemma zero_originD:
  "zero_origin J \<Longrightarrow> J pmf1 pmf2 w1 w2 ycut c ct tag tc = Inr r \<Longrightarrow> nth0 r 0 = 0"
  unfolding zero_origin_def by blast

lemma select_keeps_length:
  assumes "keeps_length (join_links_efficient K)" and "keeps_length (join_links_compatible K)"
    and "select_join_links K sim ct pmf1 pmf2 w1 w2 ycut c ct' tag tc = Inr r"
  shows "length r = length pmf1"
  using assms(3) keeps_lengthD [OF assms(1)] keeps_lengthD [OF assms(2)]
  unfolding select_join_links_def path_kernel_def
  by (cases "select_path sim ct") simp_all

lemma select_zero_origin:
  assumes "zero_origin (join_links_efficient K)" and "zero_origin (join_links_compatible K)"
    and "select_join_links K sim ct pmf1 pmf2 w1 w2 ycut c ct' tag tc = Inr r"
  shows "nth0 r 0 = 0"
  using assms(3) zero_originD [OF assms(1)] zero_originD [OF assms(2)]
  unfolding select_join_links_def path_kernel_def
  by (cases "select_path sim ct") simp_all

lemma select_state_zero_origin:
  assumes "zero_origin (join_links_efficient K)" and "zero_origin (join_links_compatible K)"
    and "select_join_links_state K sim ct pmf1 pmf2 w1 w2 ycut c ct' tag tc = Inr r"
  shows "nth0 r 0 = 0"
  using assms(3) zero_originD [OF assms(1)] zero_originD [OF assms(2)]
  unfolding select_join_links_state_def path_kernel_def
  by (cases "select_path sim ct") (simp_all split: if_splits)

lemma divide_tail_origin:
  assumes "divide_tail s p = Inr w" and "nth0 s 0 = 0"
  shows "w = [] \<or> nan_to_one w ! 0 = Fin 0"
  using assms by (cases s) (auto simp add: divide_tail_def nan_to_one_def nth0_def split: if_splits)

lemma scrub_origin: "w = [] \<or> nan_to_one w ! 0 = Fin 0 \<Longrightarrow> w \<noteq> [] \<Longrightarrow> scrub (nan_to_one w) ! 0 = 0"
  by (cases w) (auto simp add: scrub_def nan_to_one_def)

lemma entanglement_swap_origin:
  assumes "\<not> use_fft sim"
    and "zero_origin (join_links_efficient K)" and "zero_origin (join_links_compatible K)"
    and "entanglement_swap K sim pmf1 w1 pmf2 w2 q c tc ct = Inr (pmf, w)"
  shows "nth0 pmf 0 = 0 \<and> (w = [] \<or> w ! 0 = Fin 0)"
proof -
  note so = select_zero_origin [OF assms(2,3)] select_state_zero_origin [OF assms(2,3)]
  note io = iterative_convolution_origin [OF assms(1)]
  from assms(4) obtain sh pf ps pmf_cutoff state_suc state_prep state_out w' where
        pf: "select_join_links K sim ct pmf1 pmf2 w1 w2 False c ct ''1'' tc = Inr pf"
    and ps: "select_join_links K sim ct pmf1 pmf2 w1 w2 True c ct ''1'' tc = Inr ps"
    and a: "iterative_convolution sim pf sh (Some ps) None = Inr pmf_cutoff"
    and b: "iterative_convolution sim pmf_cutoff 0 None (Some q) = Inr pmf"
    and s: "select_join_links_state K sim ct pmf1 pmf2 w1 w2 True c ct ''w1w2'' tc = Inr state_suc"
    and c: "iterative_convolution sim pf sh (Some state_suc) None = Inr state_prep"
    and d: "iterative_convolution sim pmf_cutoff 0 (Some state_prep) (Some q) = Inr state_out"
    and e: "divide_tail state_out pmf = Inr w'" and w: "w = nan_to_one w'"
    unfolding entanglement_swap_def Let_def by (elim ebind_InrE) auto
  have 1: "nth0 pmf_cutoff 0 = 0" using io [OF a] so(1) [OF ps] by simp
  have 2: "nth0 pmf 0 = 0" using io [OF b] 1 by simp
  have 3: "nth0 state_prep 0 = 0" using io [OF c] so(2) [OF s] by simp
  have 4: "nth0 state_out 0 = 0" using io [OF d] 3 by simp
  show ?thesis using 2 divide_tail_origin [OF e 4] w by (auto simp add: nan_to_one_def)
qed

lemma destillation_origin:
  assumes "\<not> use_fft sim"
    and "zero_origin (join_links_efficient K)" and "zero_origin (join_links_compatible K)"
    and "destillation K sim pmf1 w1 pmf2 w2 c tc ct = Inr (pmf, w)"
  shows "nth0 pmf 0 = 0 \<and> (w = [] \<or> w ! 0 = Fin 0)"
proof -
  note so = select_zero_origin [OF assms(2,3)]
  note io = iterative_convolution_origin [OF assms(1)]
  from assms(4) obtain sh pf pss ps_dist pf_dist state_suc state_prep state_out w' where
        pss: "select_join_links K sim ct pmf1 pmf2 w1 w2 True c ct ''0.5+0.5w1w2'' tc = Inr pss"
    and a: "iterative_convolution sim pf sh (Some pss) None = Inr ps_dist"
    and b: "iterative_convolution sim pf_dist 0 (Some ps_dist) None = Inr pmf"
    and s: "select_join_links K sim ct pmf1 pmf2 w1 w2 True c ct ''w1+w2+4w1w2'' tc = Inr state_suc"
    and c: "iterative_convolution sim pf sh (Some state_suc) None = Inr state_prep"
    and d: "iterative_convolution sim pf_dist 0 (Some state_prep) None = Inr state_out"
    and e: "divide_tail state_out pmf = Inr w'" and w: "w = nan_to_one w'"
    unfolding destillation_def Let_def by (elim ebind_InrE) auto
  have 1: "nth0 ps_dist 0 = 0" using io [OF a] so [OF pss] by simp
  have 2: "nth0 pmf 0 = 0" using io [OF b] 1 by simp
  have 3: "nth0 state_prep 0 = 0" using io [OF c] so [OF s] by simp
  have 4: "nth0 state_out 0 = 0" using io [OF d] 3 by simp
  show ?thesis using 2 divide_tail_origin [OF e 4] w by (auto simp add: nan_to_one_def)
qed

lemma compute_unit_cases:
  assumes "compute_unit K sim P pmf1 w1 pmf2 w2 kind = Inr (pmf, w)"
  obtains w' where "w = scrub w'"
    and "entanglement_swap K sim pmf1 w1 (get_or pmf2 pmf1) (get_or w2 w1) (p_swap P)
            (unit_cutoff P) (unit_t_coh P) (unit_cut_type P) = Inr (pmf, w')
         \<or> destillation K sim pmf1 w1 (get_or pmf2 pmf1) (get_or w2 w1)
            (unit_cutoff P) (unit_t_coh P) (unit_cut_type P) = Inr (pmf, w')"
  using assms unfolding compute_unit_def Let_def
  by (elim ebind_InrE) (auto split: if_splits)

text \<open>
  C1, as the code has it. With kernels that return arrays of the inputs' length
  \<open>T_trunc\<close>, every unit operation that returns gives \<open>len(pmf) = len(w) = T_trunc\<close>
  and every \<open>w[t]\<close> in \<open>[0, 1]\<close>. The sample \<open>w[0]\<close> is not set to 1: it is the
  clamped value of the Werner-weighted series at index 0. On the exact-convolution path,
  with kernels whose arrays are 0 at index 0, \<open>pmf[0] = 0\<close> and \<open>w[0] = 0\<close>.
\<close>

theorem unit_shape:
  assumes "keeps_length (join_links_efficient K)" and "keeps_length (join_links_compatible K)"
    and "compute_unit K sim P pmf1 w1 pmf2 w2 kind = Inr (pmf, w)"
  shows "length pmf = length pmf1 \<and> length w = length pmf1 \<and> (\<forall>x\<in>set w. 0 \<le> x \<and> x \<le> 1)
       \<and> (\<not> use_fft sim \<and> zero_origin (join_links_efficient K)
            \<and> zero_origin (join_links_compatible K) \<and> pmf1 \<noteq> []
          \<longrightarrow> pmf ! 0 = 0 \<and> w ! 0 = 0)"
proof -
  from assms(3) obtain w' where w: "w = scrub w'"
    and unit: "entanglement_swap K sim pmf1 w1 (get_or pmf2 pmf1) (get_or w2 w1) (p_swap P)
            (unit_cutoff P) (unit_t_coh P) (unit_cut_type P) = Inr (pmf, w')
         \<or> destillation K sim pmf1 w1 (get_or pmf2 pmf1) (get_or w2 w1)
            (unit_cutoff P) (unit_t_coh P) (unit_cut_type P) = Inr (pmf, w')"
    by (rule compute_unit_cases)
  have "\<exists>pf. select_join_links K sim (unit_cut_type P) pmf1 (get_or pmf2 pmf1) w1 (get_or w2 w1)
           False (unit_cutoff P) (unit_cut_type P) ''1'' (unit_t_coh P) = Inr pf
         \<and> length pmf = length pf \<and> length w' = length pf"
  proof (rule disjE [OF unit])
    assume "entanglement_swap K sim pmf1 w1 (get_or pmf2 pmf1) (get_or w2 w1) (p_swap P)
            (unit_cutoff P) (unit_t_coh P) (unit_cut_type P) = Inr (pmf, w')"
    then show ?thesis by (rule entanglement_swap_shape)
  next
    assume "destillation K sim pmf1 w1 (get_or pmf2 pmf1) (get_or w2 w1)
            (unit_cutoff P) (unit_t_coh P) (unit_cut_type P) = Inr (pmf, w')"
    then show ?thesis by (rule destillation_shape)
  qed
  then obtain pf where
    pf: "select_join_links K sim (unit_cut_type P) pmf1 (get_or pmf2 pmf1) w1 (get_or w2 w1) False
           (unit_cutoff P) (unit_cut_type P) ''1'' (unit_t_coh P) = Inr pf"
    and len: "length pmf = length pf" "length w' = length pf"
    by blast
  have lpf: "length pf = length pmf1"
    using select_keeps_length [OF assms(1,2) pf] .
  have range: "\<forall>x\<in>set w. 0 \<le> x \<and> x \<le> 1"
    using w scrub_range by blast
  have origin: "pmf ! 0 = 0 \<and> w ! 0 = 0"
    if h: "\<not> use_fft sim" "zero_origin (join_links_efficient K)"
      "zero_origin (join_links_compatible K)" "pmf1 \<noteq> []"
  proof -
    have o: "nth0 pmf 0 = 0 \<and> (w' = [] \<or> w' ! 0 = Fin 0)"
      using unit entanglement_swap_origin [OF h(1,2,3)] destillation_origin [OF h(1,2,3)]
      by blast
    have ne: "pmf \<noteq> []" "w' \<noteq> []" using len lpf h(4) by auto
    then show ?thesis
      using o w by (cases w') (auto simp add: nth0_def scrub_def nan_to_one_def)
  qed
  show ?thesis using len lpf w range origin by simp
qed


lemma sum_list_zero: "(\<And>x. x \<in> set xs \<Longrightarrow> f x = (0::real)) \<Longrightarrow> sum_list (map f xs) = 0"
  by (induction xs) simp_all

lemma join_links_spec_length: "keeps_length join_links_spec"
  unfolding keeps_length_def join_links_spec_def
  by (auto split: if_splits cut.splits coherence.splits)

lemma join_sum_origin: "join_sum ycut sel wt pmf1 pmf2 0 = 0"
  unfolding join_sum_def by (intro sum_list_zero) auto

lemma join_links_spec_origin: "zero_origin join_links_spec"
  unfolding zero_origin_def join_links_spec_def
  by (auto simp add: nth0_def join_sum_origin split: if_splits cut.splits coherence.splits)

lemma spec_kernels_ok:
  "keeps_length (join_links_efficient spec_kernels)" "keeps_length (join_links_compatible spec_kernels)"
  "zero_origin (join_links_efficient spec_kernels)" "zero_origin (join_links_compatible spec_kernels)"
  by (simp_all add: spec_kernels_def join_links_spec_length join_links_spec_origin)

lemma kernel_fail: "join_links_spec [0, 1/2] [0, 1/2] [1, 1] [1, 1] False (One (PInt int_max))
    ''memory_time'' ''1'' TInf = Inr [0, 0]"
  by (simp add: join_links_spec_def join_sum_def passes_def weight_def nth0_def int_max_def upt_rec)

lemma kernel_success: "join_links_spec [0, 1/2] [0, 1/2] [1, 1] [1, 1] True (One (PInt int_max))
    ''memory_time'' ''1'' TInf = Inr [0, 1/4]"
  by (simp add: join_links_spec_def join_sum_def passes_def weight_def nth0_def int_max_def upt_rec)

lemma kernel_werner: "join_links_spec [0, 1/2] [0, 1/2] [1, 1] [1, 1] True (One (PInt int_max))
    ''memory_time'' ''w1w2'' TInf = Inr [0, 1/4]"
  by (simp add: join_links_spec_def join_sum_def passes_def weight_def decay_def nth0_def int_max_def upt_rec)

lemma fft_quarter4: "fft [0, 1/4] 4 = [1/4, - \<i>/4, - 1/4, \<i>/4]"
  unfolding fft_def cis_quarter by (simp add: nth0_def eval_nat_numeral upt_rec)

lemma series_zero_quarter: "fft_series [0, 0] [0, 1/4] None 4 = Inr [0, 1/4, 0, 0]"
  unfolding fft_series_def fft_quarter4 fft_zero4 Let_def ifft_def
  by (simp add: fft_denominator_def cis_pi_half eval_nat_numeral upt_rec complex_eq_iff)

lemma series_swap_quarter:
  "fft_series [0, 1/4] [0, 1/4] (Some (1/2)) 4 = Inr [1/4095, 512/4095, 64/4095, 8/4095]"
  unfolding fft_series_def fft_quarter4 Let_def ifft_def
  by (simp add: fft_denominator_def cis_pi_half eval_nat_numeral upt_rec complex_eq_iff
      Re_divide Im_divide)

lemma conv_cutoff_fft:
  "iterative_convolution (new_simulator False) [0, 0] int_max (Some [0, 1/4]) None = Inr [0, 1/4]"
  by (simp add: iterative_convolution_def iterative_convolution_helper_def required_k_def
      new_simulator_def init_sum_def scale_def shift_func_def shape2 series_zero_quarter
      fft_finish_def Let_def int_max_def)

lemma conv_swap_fft:
  "iterative_convolution (new_simulator False) [0, 1/4] 0 None (Some (1/2)) = Inr [1/4095, 512/4095]"
  "iterative_convolution (new_simulator False) [0, 1/4] 0 (Some [0, 1/4]) (Some (1/2)) = Inr [1/4095, 512/4095]"
  by (simp_all add: iterative_convolution_def iterative_convolution_helper_def required_k_def
      new_simulator_def init_sum_def scale_def shift_func_def shape2 series_swap_quarter
      fft_finish_def Let_def)

lemma swap_fft_example:
  "entanglement_swap spec_kernels (new_simulator False) [0, 1/2] [1, 1] [0, 1/2] [1, 1] (1/2)
     (One (PInt int_max)) TInf ''memory_time'' = Inr ([1/4095, 512/4095], [Fin (1/4095), Fin 1])"
  by (simp add: entanglement_swap_def select_join_links_def select_join_links_state_def
      select_path_def path_kernel_def spec_kernels_def shift_of_def kernel_fail kernel_success
      kernel_werner conv_cutoff_fft conv_swap_fft divide_tail_def fdiv_def nan_to_one_def Let_def
      new_simulator_def [of False, THEN arg_cong, of efficient] new_simulator_def [THEN arg_cong, of qutip])

lemma unit_fft_example:
  "compute_unit spec_kernels (new_simulator False) base_parameters [0, 1/2] [1, 1] None None ''swap''
     = Inr ([1/4095, 512/4095], [1/4095, 1])"
  by (simp add: compute_unit_def base_parameters_def unit_t_coh_def unit_cut_type_def
      unit_cutoff_def get_or_def check_time_cutoff_def check_fidelity_cutoff_def Let_def
      swap_fft_example scrub_def nan_to_one_def)

text \<open>
  The claim fails on the simulator as constructed (Fourier path) for a swap of two
  elementary links with \<open>p_gen = 1/2\<close>, \<open>w0 = 1\<close>, \<open>p_swap = 1/2\<close> and
  \<open>T_trunc = 2\<close>: the circular series leaves \<open>pmf[0] = 1/4095\<close>, and \<open>w[0]\<close> is
  the undivided sample \<open>1/4095\<close>, not 1.
\<close>

theorem unit_shape_counterexample:
  "compute_unit spec_kernels (new_simulator False) base_parameters [0, 1/2] [1, 1] None None ''swap''
     = Inr ([1/4095, 512/4095], [1/4095, 1])
   \<and> [1/4095, 512/4095] ! 0 \<noteq> (0::real) \<and> [1/4095, 1] ! 0 \<noteq> (1::real)"
  using unit_fft_example by simp

lemma conv_cutoff_exact:
  "iterative_convolution exact_simulator [0, 0] int_max (Some [0, 1/4]) None = Inr [0, 1/4]"
  by (simp add: iterative_convolution_def iterative_convolution_helper_def required_k_def
      exact_simulator_def new_simulator_def init_sum_def scale_def shift_func_def
      exact_convolution_def convolve_def add_scaled_def coeff_def nth0_def upt_rec
      Let_def int_max_def eval_nat_numeral)

lemma conv_swap_exact:
  "iterative_convolution exact_simulator [0, 1/4] 0 None (Some 1) = Inr [0, 1/4]"
  "iterative_convolution exact_simulator [0, 1/4] 0 (Some [0, 1/4]) (Some 1) = Inr [0, 1/4]"
  by (simp_all add: iterative_convolution_def iterative_convolution_helper_def required_k_def
      exact_simulator_def new_simulator_def init_sum_def scale_def shift_func_def
      exact_convolution_def convolve_def add_scaled_def coeff_def nth0_def upt_rec
      Let_def eval_nat_numeral)

lemma exact_simulator_fields:
  "\<not> use_fft exact_simulator" "efficient exact_simulator" "\<not> qutip exact_simulator"
  "\<not> use_cache exact_simulator"
  by (simp_all add: exact_simulator_def new_simulator_def)

lemma swap_exact_example:
  "entanglement_swap spec_kernels exact_simulator [0, 1/2] [1, 1] [0, 1/2] [1, 1] 1
     (One (PInt int_max)) TInf ''memory_time'' = Inr ([0, 1/4], [Fin 0, Fin 1])"
  by (simp add: entanglement_swap_def select_join_links_def select_join_links_state_def
      select_path_def path_kernel_def spec_kernels_def shift_of_def kernel_fail kernel_success
      kernel_werner conv_cutoff_exact conv_swap_exact divide_tail_def fdiv_def nan_to_one_def Let_def
      exact_simulator_fields)

lemma unit_exact_example:
  "compute_unit spec_kernels exact_simulator (base_parameters\<lparr>p_swap := 1\<rparr>) [0, 1/2] [1, 1]
     None None ''swap'' = Inr ([0, 1/4], [0, 1])"
  by (simp add: compute_unit_def base_parameters_def unit_t_coh_def unit_cut_type_def
      unit_cutoff_def get_or_def check_time_cutoff_def check_fidelity_cutoff_def Let_def
      swap_exact_example scrub_def nan_to_one_def)

theorem unit_shape_witness:
  "compute_unit spec_kernels exact_simulator (base_parameters\<lparr>p_swap := 1\<rparr>) [0, 1/2] [1, 1]
     None None ''swap'' = Inr ([0, 1/4], [0, 1])
   \<and> length [0, 1/4 :: real] = length [0, 1/2 :: real]
   \<and> length [0, 1 :: real] = length [0, 1/2 :: real]
   \<and> 0 \<le> [0, 1 :: real] ! 1 \<and> [0, 1 :: real] ! 1 \<le> 1
   \<and> [0, 1/4] ! 0 = (0::real) \<and> [0, 1] ! 0 = (0::real)"
  using unit_shape [OF spec_kernels_ok(1,2) unit_exact_example] spec_kernels_ok(3,4)
    unit_exact_example
  by (simp add: exact_simulator_fields)

section \<open>The symmetric driver on an empty protocol (C4)\<close>

lemma elementary_link_shape:
  assumes "1 \<le> T"
  shows "length (fst (elementary_link p w T)) = nat T"
    and "length (snd (elementary_link p w T)) = nat T"
    and "fst (elementary_link p w T) ! 0 = 0"
    and "1 \<le> t \<Longrightarrow> t < nat T \<Longrightarrow> fst (elementary_link p w T) ! t = p * (1 - p) ^ (t - 1)"
    and "t < nat T \<Longrightarrow> snd (elementary_link p w T) ! t = w"
proof -
  show "length (fst (elementary_link p w T)) = nat T"
    using assms by (simp add: elementary_link_def)
  show "length (snd (elementary_link p w T)) = nat T"
    by (simp add: elementary_link_def)
  show "fst (elementary_link p w T) ! 0 = 0"
    by (simp add: elementary_link_def)
  show "fst (elementary_link p w T) ! t = p * (1 - p) ^ (t - 1)" if t1: "1 \<le> t" and t2: "t < nat T"
  proof -
    obtain k where k: "t = Suc k" using t1 by (cases t) auto
    then have "k < length [1..<nat T]" using t2 by simp
    then have "map (\<lambda>k. p * (1 - p) ^ (k - 1)) [1..<nat T] ! k = p * (1 - p) ^ k"
      by (simp del: upt_Suc)
    then show ?thesis using k by (simp add: elementary_link_def del: upt_Suc)
  qed
  show "snd (elementary_link p w T) ! t = w" if "t < nat T"
    using that by (simp add: elementary_link_def)
qed

lemma check_cache_empty: "protocol P = [] \<Longrightarrow> check_cache C P = (0, None)"
  by (simp add: check_cache_def)

text \<open>
  C4. For every \<open>p_gen\<close>, \<open>w0\<close> and \<open>T_trunc \<ge> 2\<close>, the symmetric driver with an
  empty protocol (with or without a cache, and through \<^verbatim>\<open>repeater_sim\<close>) returns the
  elementary link: \<open>pmf[0] = 0\<close>, \<open>pmf[t] = p_gen \<cdot> (1 - p_gen)\<^sup>t\<^sup>-\<^sup>1\<close> for
  \<open>1 \<le> t < T_trunc\<close>, and \<open>w[t] = w0\<close> for every \<open>t\<close>; the cache is left as it was.
\<close>

theorem empty_protocol_elementary:
  assumes "protocol P = []" and "p_gen P = Scalar p" and "w0 P = Scalar w" and "2 \<le> t_trunc P"
  shows "nested_protocol K sim C P = (C, Inr (elementary_link p w (t_trunc P)))
     \<and> repeater_sim K check P = Inr (Some (elementary_link p w (t_trunc P)))
     \<and> length (fst (elementary_link p w (t_trunc P))) = nat (t_trunc P)
     \<and> length (snd (elementary_link p w (t_trunc P))) = nat (t_trunc P)
     \<and> fst (elementary_link p w (t_trunc P)) ! 0 = 0
     \<and> (\<forall>t. 1 \<le> t \<and> t < nat (t_trunc P)
            \<longrightarrow> fst (elementary_link p w (t_trunc P)) ! t = p * (1 - p) ^ (t - 1))
     \<and> (\<forall>t. t < nat (t_trunc P) \<longrightarrow> snd (elementary_link p w (t_trunc P)) ! t = w)"
proof -
  have n: "nested_protocol K s C' P = (C', Inr (elementary_link p w (t_trunc P)))" for s C'
    using assms(1,2,3) by (simp add: nested_protocol_def check_cache_empty first_link_def)
  have T: "1 \<le> t_trunc P" using assms(4) by simp
  show ?thesis
    using n elementary_link_shape [OF T, where p = p and w = w] assms(1)
    by (simp add: repeater_sim_def)
qed

theorem empty_protocol_elementary_witness:
  "nested_protocol spec_kernels (new_simulator True) Map.empty base_parameters
     = (Map.empty, Inr ([0, 1/2], [1, 1]))
   \<and> fst (elementary_link (1/2) 1 2) ! 1 = 1/2 * (1 - 1/2) ^ (1 - 1)"
  using empty_protocol_elementary [of base_parameters "1/2" 1 spec_kernels "new_simulator True" Map.empty]
  by (simp add: base_parameters_def elementary_link_def upt_rec numeral_2_eq_2)

section \<open>Steps that are neither swap nor distillation (C10)\<close>

lemma step_parameters_readable:
  "cuts_readable P i \<Longrightarrow> \<exists>Q. step_parameters P i = Inr Q"
  "\<not> cuts_readable P i \<Longrightarrow> step_parameters P i = Inl IndexError"
  by (auto simp add: cuts_readable_def step_parameters_def long_enough_def item_def Let_def
      split: option.splits cut.splits)

text \<open>
  C10, as the code has it. A step of the symmetric driver whose tag is an integer other
  than 0 and 1 falls through both branches of the dispatch: the unit is not computed
  and the state \<open>(pmf, w)\<close> is what it was. Before the dispatch the driver reads the
  cut-offs of the step. When they can be read the step returns the state unchanged
  (and stores it in the cache, when there is one). When they cannot, because a cut-off
  given as a sequence has no entry at the index of the step, the step raises IndexError
  whatever its tag. \<^verbatim>\<open>repeater_sim\<close> sends every protocol of integers to the symmetric
  driver without a check of the tags.
\<close>

theorem unknown_tag_skipped:
  assumes "protocol P ! i = Tag n" and "n \<noteq> 0" and "n \<noteq> 1"
  shows "apply_operation K sim Q (Tag n) st = Inr st
     \<and> (cuts_readable P i \<longrightarrow>
          nested_step K sim P i st = Inr st
          \<and> run_steps K sim P C st (i # rest) =
              run_steps K sim P
                (if use_cache sim then C(cache_key P (take (Suc i) (protocol P)) \<mapsto> st) else C)
                st rest)
     \<and> (\<not> cuts_readable P i \<longrightarrow>
          nested_step K sim P i st = Inl IndexError
          \<and> run_steps K sim P C st (i # rest) = (C, Inl IndexError))
     \<and> (list_all is_tag (protocol P) \<longrightarrow>
          repeater_sim K check P
            = map_sum id Some (snd (nested_protocol K (new_simulator False) Map.empty P)))"
proof (intro conjI impI)
  show a: "apply_operation K sim Q (Tag n) st = Inr st" for Q
    using assms by (simp add: apply_operation_def)
  show "nested_step K sim P i st = Inr st" if "cuts_readable P i"
    using step_parameters_readable(1) [OF that] assms a by (auto simp add: nested_step_def)
  then show "run_steps K sim P C st (i # rest) =
        run_steps K sim P
          (if use_cache sim then C(cache_key P (take (Suc i) (protocol P)) \<mapsto> st) else C) st rest"
    if "cuts_readable P i"
    using that by simp
  show "nested_step K sim P i st = Inl IndexError" if "\<not> cuts_readable P i"
    using step_parameters_readable(2) [OF that] by (simp add: nested_step_def)
  then show "run_steps K sim P C st (i # rest) = (C, Inl IndexError)" if "\<not> cuts_readable P i"
    using that by simp
  show "repeater_sim K check P
          = map_sum id Some (snd (nested_protocol K (new_simulator False) Map.empty P))"
    if "list_all is_tag (protocol P)"
    using that by (simp add: repeater_sim_def)
qed

lemma first_link_base:
  "first_link (base_parameters\<lparr>protocol := [Tag 2]\<rparr>) = Inr ([0, 1/2], [1, 1])"
  by (simp add: first_link_def base_parameters_def elementary_link_def upt_rec numeral_2_eq_2)

lemma base_readable: "cuts_readable (base_parameters\<lparr>protocol := [Tag 2]\<rparr>) 0"
  by (simp add: cuts_readable_def long_enough_def rename_tau_def base_parameters_def mt_cuts_def
      w_cuts_def rt_cuts_def cut_of_def get_or_def expand_def Let_def)

lemma short_cut_readable:
  "cuts_readable short_cut_parameters 0" "\<not> cuts_readable short_cut_parameters 1"
  by (simp_all add: cuts_readable_def long_enough_def rename_tau_def short_cut_parameters_def
      base_parameters_def mt_cuts_def w_cuts_def rt_cuts_def cut_of_def get_or_def expand_def Let_def)

lemma short_cut_fields:
  "protocol short_cut_parameters = [Tag 2, Tag 2]"
  "first_link short_cut_parameters = Inr ([0, 1/2], [1, 1])"
  by (simp_all add: short_cut_parameters_def first_link_def base_parameters_def
      elementary_link_def upt_rec numeral_2_eq_2)

text \<open>
  Instances: the protocol \<open>(2,)\<close> with the default cut-offs, and the second step of the
  protocol \<open>(2, 2)\<close> with \<open>mt_cut = (5,)\<close>.
\<close>

theorem unknown_tag_skipped_witness:
  "cuts_readable (base_parameters\<lparr>protocol := [Tag 2]\<rparr>) 0
   \<and> run_steps spec_kernels (new_simulator False) (base_parameters\<lparr>protocol := [Tag 2]\<rparr>) Map.empty
      ([0, 1/2], [1, 1]) [0] = (Map.empty, Inr ([0, 1/2], [1, 1]))
   \<and> repeater_sim spec_kernels (\<lambda>p. Inl ValueError) (base_parameters\<lparr>protocol := [Tag 2]\<rparr>)
      = Inr (Some ([0, 1/2], [1, 1]))
   \<and> \<not> cuts_readable short_cut_parameters 1
   \<and> nested_step spec_kernels (new_simulator False) short_cut_parameters 1 ([0, 1/2], [1, 1])
      = Inl IndexError"
proof -
  note skip = unknown_tag_skipped [where P = "base_parameters\<lparr>protocol := [Tag 2]\<rparr>" and i = 0
      and n = 2 and K = spec_kernels and sim = "new_simulator False" and st = "([0, 1/2], [1, 1])"
      and C = Map.empty and rest = "[]" and check = "\<lambda>p. Inl ValueError"]
  note stop = unknown_tag_skipped [where P = short_cut_parameters and i = 1
      and n = 2 and K = spec_kernels and sim = "new_simulator False" and st = "([0, 1/2], [1, 1])"]
  have f: "\<not> use_cache (new_simulator False)" by (simp add: new_simulator_def)
  have run: "run_steps spec_kernels (new_simulator False) (base_parameters\<lparr>protocol := [Tag 2]\<rparr>)
      Map.empty ([0, 1/2], [1, 1]) [0] = (Map.empty, Inr ([0, 1/2], [1, 1]))"
    using skip base_readable f by simp
  have "nested_protocol spec_kernels (new_simulator False) Map.empty
          (base_parameters\<lparr>protocol := [Tag 2]\<rparr>) = (Map.empty, Inr ([0, 1/2], [1, 1]))"
    using f run by (simp add: nested_protocol_def first_link_base)
  then have sim: "repeater_sim spec_kernels (\<lambda>p. Inl ValueError) (base_parameters\<lparr>protocol := [Tag 2]\<rparr>)
      = Inr (Some ([0, 1/2], [1, 1]))"
    using skip by simp
  have "nested_step spec_kernels (new_simulator False) short_cut_parameters 1 ([0, 1/2], [1, 1])
      = Inl IndexError"
    using stop short_cut_readable(2) by (simp add: short_cut_fields)
  then show ?thesis using run sim base_readable short_cut_readable(2) by simp
qed

lemma short_cut_steps:
  "nested_step K sim short_cut_parameters 0 st = Inr st"
  "nested_step K sim short_cut_parameters (Suc 0) st = Inl IndexError"
  using step_parameters_readable(1) [OF short_cut_readable(1)]
    step_parameters_readable(2) [OF short_cut_readable(2)]
  by (auto simp add: nested_step_def apply_operation_def short_cut_fields)

text \<open>
  C10 as the specification words it fails: with the protocol \<open>(2, 2)\<close> and
  \<open>mt_cut = (5,)\<close> the second step, whose tag is 2, raises IndexError.
\<close>

theorem unknown_tag_skipped_counterexample:
  "protocol short_cut_parameters = [Tag 2, Tag 2]
   \<and> mt_cut short_cut_parameters = Some (Many [PInt 5])
   \<and> snd (nested_protocol spec_kernels (new_simulator False) Map.empty short_cut_parameters)
      = Inl IndexError
   \<and> repeater_sim spec_kernels (\<lambda>p. Inl ValueError) short_cut_parameters = Inl IndexError"
proof -
  have f: "\<not> use_cache (new_simulator False)" by (simp add: new_simulator_def)
  have n: "snd (nested_protocol spec_kernels (new_simulator False) Map.empty short_cut_parameters)
      = Inl IndexError"
    using f by (simp add: nested_protocol_def short_cut_fields short_cut_steps upt_rec)
  then show ?thesis
    by (simp add: repeater_sim_def short_cut_fields) (simp add: short_cut_parameters_def)
qed

section \<open>The swap of the asymmetric driver (C9)\<close>










section \<open>The join-links path of the heterogeneous driver (C5)\<close>

lemma entanglement_swap_efficient:
  assumes "efficient sim" and "ct = ''memory_time''"
  shows "entanglement_swap (K\<lparr>join_links_compatible := J\<rparr>) sim pmf1 w1 pmf2 w2 q c tc ct
       = entanglement_swap K sim pmf1 w1 pmf2 w2 q c tc ct"
  using assms
  by (simp add: entanglement_swap_def select_join_links_def select_join_links_state_def
      select_path_def path_kernel_def)

lemma destillation_efficient:
  assumes "efficient sim" and "ct = ''memory_time''"
  shows "destillation (K\<lparr>join_links_compatible := J\<rparr>) sim pmf1 w1 pmf2 w2 c tc ct
       = destillation K sim pmf1 w1 pmf2 w2 c tc ct"
  using assms
  by (simp add: destillation_def select_join_links_def select_path_def path_kernel_def)

lemma compute_unit_efficient:
  assumes "efficient sim" and "cut_type Q = None"
  shows "compute_unit (K\<lparr>join_links_compatible := J\<rparr>) sim Q pmf1 w1 pmf2 w2 kind
       = compute_unit K sim Q pmf1 w1 pmf2 w2 kind"
proof -
  have ct: "unit_cut_type Q = ''memory_time''" using assms(2) by (simp add: unit_cut_type_def)
  show ?thesis
    unfolding compute_unit_def Let_def ct
    by (simp add: entanglement_swap_efficient [OF assms(1)] destillation_efficient [OF assms(1)])
qed

lemma heterogeneous_step_efficient:
  assumes "efficient sim" and "cut_type P = None"
  shows "heterogeneous_step (K\<lparr>join_links_compatible := J\<rparr>) sim P tcs segments step
       = heterogeneous_step K sim P tcs segments step"
  unfolding heterogeneous_step_def
  using assms by (simp add: compute_unit_efficient cong: if_cong)

lemma heterogeneous_steps_efficient:
  assumes "efficient sim" and "cut_type P = None"
  shows "heterogeneous_steps (K\<lparr>join_links_compatible := J\<rparr>) sim P tcs segments steps
       = heterogeneous_steps K sim P tcs segments steps"
  by (induction steps arbitrary: segments)
     (simp_all add: heterogeneous_step_efficient [OF assms])

text \<open>
  C5. The claim asks that the heterogeneous driver never takes the efficient path. The
  driver leaves the simulator's flag \<open>efficient\<close> set (line 737 is commented out), so on
  a simulator as constructed and with no \<open>cut_type\<close> among the parameters (the default
  is a memory time) every unit selects the efficient kernel, and the result of the
  driver does not depend on the compatible kernel at all.
\<close>

theorem heterogeneous_efficient_path:
  "select_path (new_simulator c) (unit_cut_type (P\<lparr>cut_type := None\<rparr>)) = Efficient
   \<and> asymmetric_heterogeneous_protocol (K\<lparr>join_links_compatible := J\<rparr>) (new_simulator c)
        (P\<lparr>cut_type := None\<rparr>) number_of_segments
     = asymmetric_heterogeneous_protocol K (new_simulator c) (P\<lparr>cut_type := None\<rparr>)
        number_of_segments"
proof -
  have e: "efficient (new_simulator c)" by (simp add: new_simulator_def)
  show ?thesis
    using e by (simp add: select_path_def unit_cut_type_def asymmetric_heterogeneous_protocol_def
        heterogeneous_steps_efficient)
qed

section \<open>The cache of the symmetric driver (C2)\<close>

lemma helper_use_cache:
  "iterative_convolution_helper (sim\<lparr>use_cache := b\<rparr>) f g n sh q k
     = iterative_convolution_helper sim f g n sh q k"
  by (simp add: iterative_convolution_helper_def cong: if_cong)

lemma iterative_convolution_use_cache:
  "iterative_convolution (sim\<lparr>use_cache := b\<rparr>) f sh g q = iterative_convolution sim f sh g q"
  by (simp add: iterative_convolution_def helper_use_cache Let_def cong: if_cong)

lemma compute_unit_use_cache:
  "compute_unit K (sim\<lparr>use_cache := b\<rparr>) Q pmf1 w1 pmf2 w2 kind
     = compute_unit K sim Q pmf1 w1 pmf2 w2 kind"
  by (simp add: compute_unit_def entanglement_swap_def destillation_def select_join_links_def
      select_join_links_state_def select_path_def iterative_convolution_use_cache Let_def
      cong: if_cong)

lemma unit_fields:
  "unit_t_coh (Q\<lparr>protocol := pr\<rparr>) = unit_t_coh Q"
  "unit_t_coh (Q\<lparr>t_trunc := T\<rparr>) = unit_t_coh Q"
  "unit_cut_type (Q\<lparr>protocol := pr\<rparr>) = unit_cut_type Q"
  "unit_cut_type (Q\<lparr>t_trunc := T\<rparr>) = unit_cut_type Q"
  "unit_cutoff (Q\<lparr>protocol := pr\<rparr>) = unit_cutoff Q"
  "unit_cutoff (Q\<lparr>t_trunc := T\<rparr>) = unit_cutoff Q"
  by (simp_all add: unit_t_coh_def unit_cut_type_def unit_cutoff_def split: option.splits)

lemma compute_unit_fields:
  "compute_unit K sim (Q\<lparr>protocol := pr\<rparr>) pmf1 w1 pmf2 w2 kind
     = compute_unit K sim Q pmf1 w1 pmf2 w2 kind"
  "compute_unit K sim (Q\<lparr>t_trunc := T\<rparr>) pmf1 w1 pmf2 w2 kind
     = compute_unit K sim Q pmf1 w1 pmf2 w2 kind"
  by (simp_all add: compute_unit_def unit_fields cong: if_cong)

lemma apply_operation_fields:
  "apply_operation K (sim\<lparr>use_cache := b\<rparr>) Q op st = apply_operation K sim Q op st"
  "apply_operation K sim (Q\<lparr>protocol := pr\<rparr>) op st = apply_operation K sim Q op st"
  "apply_operation K sim (Q\<lparr>t_trunc := T\<rparr>) op st = apply_operation K sim Q op st"
  by (simp_all add: apply_operation_def compute_unit_use_cache compute_unit_fields)

lemma step_parameters_t_trunc:
  "step_parameters (P\<lparr>t_trunc := T\<rparr>) i = map_sum id (\<lambda>Q. Q\<lparr>t_trunc := T\<rparr>) (step_parameters P i)"
proof -
  have r: "rename_tau (P\<lparr>t_trunc := T\<rparr>) = (rename_tau P)\<lparr>t_trunc := T\<rparr>"
    by (simp add: rename_tau_def split: option.splits)
  have c: "mt_cuts ((rename_tau P)\<lparr>t_trunc := T\<rparr>) = mt_cuts (rename_tau P)"
    "w_cuts ((rename_tau P)\<lparr>t_trunc := T\<rparr>) = w_cuts (rename_tau P)"
    "rt_cuts ((rename_tau P)\<lparr>t_trunc := T\<rparr>) = rt_cuts (rename_tau P)"
    by (simp_all add: mt_cuts_def w_cuts_def rt_cuts_def cut_of_def)
  show ?thesis
    unfolding step_parameters_def Let_def r c
    by (cases "cutoff (rename_tau P)"; cases "item (mt_cuts (rename_tau P)) i";
        cases "item (w_cuts (rename_tau P)) i"; cases "item (rt_cuts (rename_tau P)) i")
       (auto split: cut.splits sum.splits simp add: item_def)
qed

lemma nested_step_t_trunc:
  "nested_step K sim (P\<lparr>t_trunc := T\<rparr>) i st = nested_step K sim P i st"
  unfolding nested_step_def step_parameters_t_trunc
  by (cases "step_parameters P i") (simp_all add: apply_operation_fields)

lemma nested_step_use_cache:
  "nested_step K (sim\<lparr>use_cache := b\<rparr>) P i st = nested_step K sim P i st"
  by (simp add: nested_step_def apply_operation_fields)


lemma item_expand_prefix:
  "i < m \<Longrightarrow> m \<le> n \<Longrightarrow> item (expand c m) i = item (expand c n) i"
  by (cases c) (simp_all add: expand_def item_def)

lemma step_parameters_prefix:
  assumes "i < m" and "m \<le> length (protocol P)"
  shows "step_parameters (P\<lparr>protocol := take m (protocol P)\<rparr>) i
       = map_sum id (\<lambda>Q. Q\<lparr>protocol := take m (protocol P)\<rparr>) (step_parameters P i)"
proof -
  let ?pr = "take m (protocol P)"
  have r: "rename_tau (P\<lparr>protocol := ?pr\<rparr>) = (rename_tau P)\<lparr>protocol := ?pr\<rparr>"
    by (simp add: rename_tau_def split: option.splits)
  have l: "protocol (rename_tau P) = protocol P"
    by (simp add: rename_tau_def split: option.splits)
  have len: "min (length (protocol P)) m = m" using assms(2) by simp
  have c: "item (mt_cuts ((rename_tau P)\<lparr>protocol := ?pr\<rparr>)) i = item (mt_cuts (rename_tau P)) i"
    "item (w_cuts ((rename_tau P)\<lparr>protocol := ?pr\<rparr>)) i = item (w_cuts (rename_tau P)) i"
    "item (rt_cuts ((rename_tau P)\<lparr>protocol := ?pr\<rparr>)) i = item (rt_cuts (rename_tau P)) i"
    using item_expand_prefix [OF assms]
    by (simp_all add: mt_cuts_def w_cuts_def rt_cuts_def cut_of_def l len)
  show ?thesis
    unfolding step_parameters_def Let_def r c
    by (cases "cutoff (rename_tau P)"; cases "item (mt_cuts (rename_tau P)) i";
        cases "item (w_cuts (rename_tau P)) i"; cases "item (rt_cuts (rename_tau P)) i")
       (auto split: cut.splits sum.splits simp add: item_def)
qed

lemma nested_step_prefix:
  assumes "i < m" and "m \<le> length (protocol P)"
  shows "nested_step K sim (P\<lparr>protocol := take m (protocol P)\<rparr>) i st = nested_step K sim P i st"
  unfolding nested_step_def step_parameters_prefix [OF assms]
  using assms by (cases "step_parameters P i") (simp_all add: apply_operation_fields)

lemma run_steps_snd_cong:
  assumes "\<And>i st. i \<in> set steps \<Longrightarrow> nested_step K sim P i st = nested_step K sim' P' i st"
  shows "snd (run_steps K sim P C st steps) = snd (run_steps K sim' P' C' st steps)"
  using assms
proof (induction steps arbitrary: C C' st)
  case Nil
  then show ?case by simp
next
  case (Cons i steps)
  have s: "nested_step K sim P i st = nested_step K sim' P' i st"
    using Cons.prems by simp
  show ?case
  proof (cases "nested_step K sim' P' i st")
    case (Inl e)
    then show ?thesis using s by simp
  next
    case (Inr st')
    have ih: "snd (run_steps K sim P C1 st' steps) = snd (run_steps K sim' P' C2 st' steps)"
      for C1 C2
      by (rule Cons.IH) (simp add: Cons.prems)
    show ?thesis
      using s Inr ih by simp
  qed
qed

lemma run_steps_append:
  "snd (run_steps K sim P C st (xs @ ys))
     = ebind (snd (run_steps K sim P C st xs)) (\<lambda>st'. snd (run_steps K sim P C0 st' ys))"
proof (induction xs arbitrary: C st)
  case Nil
  show ?case
    using run_steps_snd_cong [where steps = ys and K = K and sim = sim and P = P and sim' = sim
        and P' = P and C = C and C' = C0 and st = st]
    by simp
next
  case (Cons i xs)
  show ?case
    by (cases "nested_step K sim P i st") (simp_all add: Cons.IH)
qed

lemma check_from_hit:
  "check_from C P n = (i, Some v) \<Longrightarrow>
     0 < i \<and> i \<le> n \<and> C (cache_key P (take i (protocol P))) = Some v
     \<and> t_trunc P \<le> int (length (fst v))
     \<and> (\<forall>j u. i < j \<and> j \<le> n \<and> C (cache_key P (take j (protocol P))) = Some u
            \<longrightarrow> int (length (fst u)) < t_trunc P)"
proof (induction n)
  case 0
  then show ?case by simp
next
  case (Suc n)
  show ?case
  proof (cases "C (cache_key P (take (Suc n) (protocol P)))")
    case None
    then have "check_from C P n = (i, Some v)" using Suc.prems by simp
    from Suc.IH [OF this] show ?thesis using None by (auto simp add: le_Suc_eq)
  next
    case (Some u)
    show ?thesis
    proof (cases "t_trunc P \<le> int (length (fst u))")
      case True
      then show ?thesis using Suc.prems Some by auto
    next
      case False
      then have "check_from C P n = (i, Some v)" using Suc.prems Some by simp
      from Suc.IH [OF this] show ?thesis using Some False by (auto simp add: le_Suc_eq)
    qed
  qed
qed

lemma check_from_miss: "check_from C P n = (i, None) \<Longrightarrow> i = 0"
  by (induction n) (auto split: option.splits if_splits)


lemma plain_protocol_unfold:
  "plain_protocol K sim P =
     ebind (first_link P)
       (\<lambda>st. snd (run_steps K (sim\<lparr>use_cache := False\<rparr>) P Map.empty st [0..<length (protocol P)]))"
  by (cases "first_link P") (simp_all add: plain_protocol_def nested_protocol_def)

lemma run_steps_plain:
  "snd (run_steps K (sim\<lparr>use_cache := False\<rparr>) (P\<lparr>t_trunc := T\<rparr>) C' st steps)
     = snd (run_steps K sim P C st steps)"
  by (rule run_steps_snd_cong) (simp add: nested_step_t_trunc nested_step_use_cache)

lemma first_link_fields:
  "first_link (P\<lparr>protocol := pr, t_trunc := T\<rparr>) = first_link (P\<lparr>t_trunc := T\<rparr>)"
  by (simp add: first_link_def split: numbers.splits)

lemma nested_protocol_miss:
  assumes "check_cache C P = (i, None)" and "hashable P"
  shows "snd (nested_protocol K sim C P) = plain_protocol K sim P"
proof -
  have i: "i = 0" using assms check_from_miss by (simp add: check_cache_def)
  have "snd (run_steps K sim P C st [0..<length (protocol P)])
      = snd (run_steps K (sim\<lparr>use_cache := False\<rparr>) P Map.empty st [0..<length (protocol P)])" for st
    using run_steps_plain [where K = K and sim = sim and P = P and T = "t_trunc P"
        and C' = Map.empty and st = st and steps = "[0..<length (protocol P)]" and C = C]
    by simp
  then show ?thesis
    unfolding plain_protocol_unfold
    using assms i
    by (cases "first_link P"; cases "use_cache sim") (simp_all add: nested_protocol_def)
qed

lemma nested_protocol_hit:
  assumes "use_cache sim" and "check_cache C P = (i, Some v)" and "hashable P"
  shows "snd (nested_protocol K sim C P) = snd (run_steps K sim P C v [i..<length (protocol P)])"
  using assms by (simp add: nested_protocol_def)

lemma resume_is_plain:
  assumes "i \<le> length (protocol P)"
    and "plain_protocol K sim (P\<lparr>protocol := take i (protocol P), t_trunc := L\<rparr>) = Inr v"
  shows "snd (run_steps K sim P C v [i..<length (protocol P)])
       = plain_protocol K sim (P\<lparr>t_trunc := L\<rparr>)"
proof -
  let ?n = "length (protocol P)"
  let ?sim = "sim\<lparr>use_cache := False\<rparr>"
  let ?PL = "P\<lparr>t_trunc := L\<rparr>"
  let ?P1 = "P\<lparr>protocol := take i (protocol P), t_trunc := L\<rparr>"
  have len1: "length (protocol ?P1) = i" using assms(1) by simp
  from assms(2) obtain e0 where
    e0: "first_link ?P1 = Inr e0"
    and pre: "snd (run_steps K ?sim ?P1 Map.empty e0 [0..<i]) = Inr v"
    unfolding plain_protocol_unfold len1
    by (cases "first_link ?P1") simp_all
  have fl: "first_link ?PL = Inr e0" using e0 by (simp add: first_link_fields)
  have P1: "?P1 = ?PL\<lparr>protocol := take i (protocol ?PL)\<rparr>" by simp
  have "snd (run_steps K ?sim ?P1 Map.empty e0 [0..<i]) = snd (run_steps K ?sim ?PL Map.empty e0 [0..<i])"
  proof (rule run_steps_snd_cong)
    fix j st assume "j \<in> set [0..<i]"
    then have j: "j < i" by simp
    have le: "i \<le> length (protocol ?PL)" using assms(1) by simp
    show "nested_step K ?sim ?P1 j st = nested_step K ?sim ?PL j st"
      unfolding P1 by (rule nested_step_prefix [OF j le])
  qed
  then have first: "snd (run_steps K ?sim ?PL Map.empty e0 [0..<i]) = Inr v"
    using pre by simp
  have split: "[0..<?n] = [0..<i] @ [i..<?n]"
    using assms(1) by (metis le0 upt_add_eq_append le_add_diff_inverse)
  have "plain_protocol K sim ?PL = snd (run_steps K ?sim ?PL Map.empty e0 ([0..<i] @ [i..<?n]))"
    unfolding plain_protocol_unfold fl using split by simp
  also have "\<dots> = snd (run_steps K ?sim ?PL Map.empty v [i..<?n])"
    unfolding run_steps_append [where ?C0.0 = Map.empty] first by simp
  also have "\<dots> = snd (run_steps K sim P C v [i..<?n])"
    by (rule run_steps_plain)
  finally show ?thesis by simp
qed

lemma cache_key_protocol: "protocol (cache_key P pre) = pre"
  by (simp add: cache_key_def)

lemma cache_key_empty: "cache_key P [] = (cache_key P pre)\<lparr>protocol := []\<rparr>"
  by (simp add: cache_key_def)

lemma cache_key_family:
  assumes "cache_key Q pre = cache_key P pre'"
  shows "pre = pre'" and "cache_key Q [] = cache_key P []"
proof -
  show "pre = pre'" using assms cache_key_protocol by metis
  show "cache_key Q [] = cache_key P []"
    using cache_key_empty [of Q pre] cache_key_empty [of P pre'] assms by simp
qed

lemma same_call_update:
  assumes "same_call P Q"
  shows "Q\<lparr>protocol := pre, t_trunc := T\<rparr> = P\<lparr>protocol := pre, t_trunc := T\<rparr>"
proof -
  have "P\<lparr>protocol := pre, t_trunc := T\<rparr>
      = (Q\<lparr>protocol := protocol P, t_trunc := t_trunc P\<rparr>)\<lparr>protocol := pre, t_trunc := T\<rparr>"
    using assms by (simp add: same_call_def)
  then show ?thesis by simp
qed

lemma same_call_key:
  assumes "same_call P Q"
  shows "cache_key Q pre = cache_key P pre"
proof -
  have "cache_key P pre = cache_key (Q\<lparr>protocol := protocol P, t_trunc := t_trunc P\<rparr>) pre"
    using assms by (simp add: same_call_def)
  then show ?thesis by (simp add: cache_key_def)
qed

lemma same_call_resumable:
  assumes "same_call P Q"
  shows "resumable K sim Q Ts C = resumable K sim P Ts C"
  unfolding resumable_def same_call_key [OF assms] same_call_update [OF assms] ..

lemma run_steps_other:
  assumes "\<forall>j\<in>set steps. k \<noteq> cache_key P (take (Suc j) (protocol P))"
  shows "fst (run_steps K sim P C st steps) k = C k"
  using assms
proof (induction steps arbitrary: C st)
  case Nil
  then show ?case by simp
next
  case (Cons i steps)
  show ?case
  proof (cases "nested_step K sim P i st")
    case (Inl e)
    then show ?thesis by simp
  next
    case (Inr st')
    have "fst (run_steps K sim P C' st' steps) k = C' k" for C'
      by (rule Cons.IH) (use Cons.prems in simp)
    then show ?thesis using Inr Cons.prems by simp
  qed
qed

lemma nested_protocol_other:
  assumes "\<forall>pre. k \<noteq> cache_key Q pre"
  shows "fst (nested_protocol K sim C Q) k = C k"
proof -
  have "fst (run_steps K sim Q C st steps) k = C k" for st steps
    by (rule run_steps_other) (use assms in simp)
  then show ?thesis
    by (simp add: nested_protocol_def split: prod.splits sum.splits option.splits)
qed

lemma plain_extend:
  assumes "i < length (protocol Q)"
    and "plain_protocol K sim (Q\<lparr>protocol := take i (protocol Q), t_trunc := T\<rparr>) = Inr st"
  shows "plain_protocol K sim (Q\<lparr>protocol := take (Suc i) (protocol Q), t_trunc := T\<rparr>)
       = nested_step K sim Q i st"
proof -
  let ?P = "Q\<lparr>protocol := take (Suc i) (protocol Q)\<rparr>"
  have len: "length (protocol ?P) = Suc i" using assms(1) by simp
  have tk: "take i (protocol ?P) = take i (protocol Q)" by (simp add: min_def)
  have pl: "plain_protocol K sim (?P\<lparr>protocol := take i (protocol ?P), t_trunc := T\<rparr>) = Inr st"
    using assms(2) unfolding tk by simp
  have "snd (run_steps K sim ?P Map.empty st [i..<length (protocol ?P)])
      = plain_protocol K sim (?P\<lparr>t_trunc := T\<rparr>)"
    by (rule resume_is_plain [OF _ pl]) (use assms(1) in simp)
  moreover have "nested_step K sim ?P i st = nested_step K sim Q i st"
    by (rule nested_step_prefix) (use assms(1) in simp_all)
  ultimately show ?thesis
    unfolding len by (cases "nested_step K sim Q i st") simp_all
qed

lemma run_steps_resumable:
  assumes "resumable K sim Q Ts C" and "T \<in> Ts" and "n \<le> length (protocol Q)"
    and "plain_protocol K sim (Q\<lparr>protocol := take i (protocol Q), t_trunc := T\<rparr>) = Inr st"
  shows "resumable K sim Q Ts (fst (run_steps K sim Q C st [i..<n]))"
  using assms
proof (induction "n - i" arbitrary: i C st)
  case 0
  then show ?case by simp
next
  case (Suc m)
  then have i: "i < n" by simp
  then have up: "[i..<n] = i # [Suc i..<n]" by (simp add: upt_conv_Cons)
  show ?case
  proof (cases "nested_step K sim Q i st")
    case (Inl e)
    then show ?thesis using up Suc.prems(1) by simp
  next
    case (Inr st')
    let ?k = "cache_key Q (take (Suc i) (protocol Q))"
    let ?C = "if use_cache sim then C(?k \<mapsto> st') else C"
    have pl: "plain_protocol K sim (Q\<lparr>protocol := take (Suc i) (protocol Q), t_trunc := T\<rparr>) = Inr st'"
      using plain_extend [OF _ Suc.prems(4)] i Suc.prems(3) Inr by simp
    have r: "resumable K sim Q Ts ?C"
      unfolding resumable_def
    proof (intro allI impI)
      fix pre v assume h: "?C (cache_key Q pre) = Some v"
      show "\<exists>T\<in>Ts. plain_protocol K sim (Q\<lparr>protocol := pre, t_trunc := T\<rparr>) = Inr v"
      proof (cases "use_cache sim \<and> cache_key Q pre = ?k")
        case True
        then have "pre = take (Suc i) (protocol Q)" using cache_key_family(1) by blast
        moreover have "v = st'" using h True by simp
        ultimately show ?thesis using pl Suc.prems(2) by blast
      next
        case False
        then have "C (cache_key Q pre) = Some v" using h by (auto split: if_splits)
        then show ?thesis using Suc.prems(1) unfolding resumable_def by blast
      qed
    qed
    have "resumable K sim Q Ts (fst (run_steps K sim Q ?C st' [Suc i..<n]))"
      by (rule Suc.hyps(1)) (use Suc.hyps(2) r Suc.prems(2,3) pl in simp_all)
    then show ?thesis using up Inr by simp
  qed
qed

lemma plain_protocol_empty:
  "plain_protocol K sim (Q\<lparr>protocol := [], t_trunc := T\<rparr>) = first_link (Q\<lparr>t_trunc := T\<rparr>)"
  by (cases "first_link (Q\<lparr>t_trunc := T\<rparr>)") (simp_all add: plain_protocol_unfold first_link_fields)

lemma nested_protocol_resumable:
  assumes "resumable K sim Q Ts C" and "t_trunc Q \<in> Ts"
  shows "resumable K sim Q Ts (fst (nested_protocol K sim C Q))"
proof (cases "use_cache sim \<and> hashable Q")
  case False
  have "fst (run_steps K sim Q C st steps) = C" if "\<not> use_cache sim" for st steps
    using that by (induction steps arbitrary: st) (simp_all split: sum.splits)
  then show ?thesis
    using False assms(1)
    by (auto simp add: nested_protocol_def check_cache_def split: prod.splits sum.splits option.splits)
next
  case True
  obtain i hit where c: "check_cache C Q = (i, hit)" by (cases "check_cache C Q")
  show ?thesis
  proof (cases hit)
    case None
    then have i: "i = 0" using c check_from_miss by (simp add: check_cache_def)
    show ?thesis
    proof (cases "first_link Q")
      case (Inl e)
      then show ?thesis using True c None assms(1) by (simp add: nested_protocol_def)
    next
      case (Inr st)
      have "plain_protocol K sim (Q\<lparr>protocol := take 0 (protocol Q), t_trunc := t_trunc Q\<rparr>) = Inr st"
        using plain_protocol_empty [where K = K and sim = sim and Q = Q and T = "t_trunc Q"] Inr
        by simp
      from run_steps_resumable [OF assms(1,2) _ this, of "length (protocol Q)"]
      show ?thesis using True c None i Inr by (simp add: nested_protocol_def)
    qed
  next
    case (Some v)
    have cf: "check_from C Q (length (protocol Q)) = (i, Some v)"
      using c Some by (simp add: check_cache_def)
    note h = check_from_hit [OF cf]
    then obtain T where T: "T \<in> Ts"
      and pl: "plain_protocol K sim (Q\<lparr>protocol := take i (protocol Q), t_trunc := T\<rparr>) = Inr v"
      using assms(1) unfolding resumable_def by blast
    from run_steps_resumable [OF assms(1) T _ pl, of "length (protocol Q)"]
    show ?thesis using True c Some by (simp add: nested_protocol_def)
  qed
qed

lemma fill_resumable:
  assumes "\<forall>Q\<in>set Qs. \<not> clashes P Q" and "resumable K sim P Ts C"
    and "\<forall>Q\<in>set Qs. same_call P Q \<longrightarrow> t_trunc Q \<in> Ts"
  shows "resumable K sim P Ts (fill K sim C Qs)"
  using assms
proof (induction Qs arbitrary: C)
  case Nil
  then show ?case by simp
next
  case (Cons Q Qs)
  have "resumable K sim P Ts (fst (nested_protocol K sim C Q))"
  proof (cases "cache_key Q [] = cache_key P []")
    case True
    then have s: "same_call P Q" using Cons.prems(1) by (simp add: clashes_def)
    then have "t_trunc Q \<in> Ts" using Cons.prems(3) by simp
    moreover have "resumable K sim Q Ts C"
      using Cons.prems(2) same_call_resumable [OF s] by simp
    ultimately have "resumable K sim Q Ts (fst (nested_protocol K sim C Q))"
      by (rule nested_protocol_resumable [rotated])
    then show ?thesis using same_call_resumable [OF s] by simp
  next
    case False
    have "fst (nested_protocol K sim C Q) (cache_key P pre) = C (cache_key P pre)" for pre
    proof (rule nested_protocol_other, intro allI notI)
      fix pre' assume "cache_key P pre = cache_key Q pre'"
      then have "cache_key Q [] = cache_key P []" using cache_key_family(2) by metis
      then show False using False by simp
    qed
    then show ?thesis using Cons.prems(2) unfolding resumable_def by simp
  qed
  then have "resumable K sim P Ts (fill K sim (fst (nested_protocol K sim C Q)) Qs)"
    by (rule Cons.IH [rotated]) (use Cons.prems in simp_all)
  then show ?case by simp
qed

lemma compute_unit_length:
  assumes "keeps_length (join_links_efficient K)" and "keeps_length (join_links_compatible K)"
    and "compute_unit K sim P pmf1 w1 pmf2 w2 kind = Inr (pmf, w)"
  shows "length pmf = length pmf1"
proof -
  from assms(3) obtain w' where w: "w = scrub w'"
    and unit: "entanglement_swap K sim pmf1 w1 (get_or pmf2 pmf1) (get_or w2 w1) (p_swap P)
            (unit_cutoff P) (unit_t_coh P) (unit_cut_type P) = Inr (pmf, w')
         \<or> destillation K sim pmf1 w1 (get_or pmf2 pmf1) (get_or w2 w1)
            (unit_cutoff P) (unit_t_coh P) (unit_cut_type P) = Inr (pmf, w')"
    by (rule compute_unit_cases)
  have "\<exists>pf. select_join_links K sim (unit_cut_type P) pmf1 (get_or pmf2 pmf1) w1 (get_or w2 w1)
           False (unit_cutoff P) (unit_cut_type P) ''1'' (unit_t_coh P) = Inr pf
         \<and> length pmf = length pf \<and> length w' = length pf"
  proof (rule disjE [OF unit])
    assume "entanglement_swap K sim pmf1 w1 (get_or pmf2 pmf1) (get_or w2 w1) (p_swap P)
            (unit_cutoff P) (unit_t_coh P) (unit_cut_type P) = Inr (pmf, w')"
    then show ?thesis by (rule entanglement_swap_shape)
  next
    assume "destillation K sim pmf1 w1 (get_or pmf2 pmf1) (get_or w2 w1)
            (unit_cutoff P) (unit_t_coh P) (unit_cut_type P) = Inr (pmf, w')"
    then show ?thesis by (rule destillation_shape)
  qed
  then obtain pf where
    pf: "select_join_links K sim (unit_cut_type P) pmf1 (get_or pmf2 pmf1) w1 (get_or w2 w1) False
           (unit_cutoff P) (unit_cut_type P) ''1'' (unit_t_coh P) = Inr pf"
    and len: "length pmf = length pf"
    by blast
  show ?thesis
    using select_keeps_length [OF assms(1,2) pf] len by simp
qed

lemma nested_step_length:
  assumes "keeps_length (join_links_efficient K)" and "keeps_length (join_links_compatible K)"
    and "nested_step K sim P i st = Inr st'"
  shows "length (fst st') = length (fst st)"
proof -
  from assms(3) obtain Q where "apply_operation K sim Q (protocol P ! i) st = Inr st'"
    unfolding nested_step_def by (elim ebind_InrE)
  then show ?thesis
    using compute_unit_length [OF assms(1,2), where pmf = "fst st'" and w = "snd st'"]
    by (auto simp add: apply_operation_def split: if_splits)
qed

lemma run_steps_length:
  assumes "keeps_length (join_links_efficient K)" and "keeps_length (join_links_compatible K)"
    and "snd (run_steps K sim P C st steps) = Inr v"
  shows "length (fst v) = length (fst st)"
  using assms(3)
proof (induction steps arbitrary: C st)
  case Nil
  then show ?case by simp
next
  case (Cons i steps)
  show ?case
  proof (cases "nested_step K sim P i st")
    case (Inl e)
    then show ?thesis using Cons.prems by simp
  next
    case (Inr st')
    then have "length (fst v) = length (fst st')"
      using Cons.prems Cons.IH by simp
    then show ?thesis using nested_step_length [OF assms(1,2) Inr] by simp
  qed
qed

lemma plain_protocol_length:
  assumes "keeps_length (join_links_efficient K)" and "keeps_length (join_links_compatible K)"
    and "plain_protocol K sim Q = Inr v" and "1 \<le> t_trunc Q"
  shows "int (length (fst v)) = t_trunc Q"
proof -
  from assms(3) obtain e0 where e0: "first_link Q = Inr e0"
    and r: "snd (run_steps K (sim\<lparr>use_cache := False\<rparr>) Q Map.empty e0 [0..<length (protocol Q)]) = Inr v"
    unfolding plain_protocol_unfold by (cases "first_link Q") simp_all
  have "int (length (fst e0)) = t_trunc Q"
    using e0 assms(4)
    by (auto simp add: first_link_def elementary_link_def split: numbers.splits)
  then show ?thesis using run_steps_length [OF assms(1,2) r] by simp
qed

text \<open>
  C2, as the code has it. The simulator has memoization enabled, the parameters can be
  hashed (no \<open>cutoff_dict\<close>), and the cache is the one that earlier calls of the driver
  on this simulator have left, starting from the empty cache, none of which clashes with
  the requested parameters (has the same cache keys with a cut-off of the other numeric
  type). The driver looks for the longest prefix of the protocol whose cached arrays have
  at least \<open>T_trunc\<close> samples. Without one it returns what the driver without
  memoization returns. With one it resumes from the cached state, which an earlier call
  with the same parameters up to the protocol and \<open>T_trunc\<close> has computed, and what it
  returns is the result of the driver without memoization at the \<open>T_trunc\<close> of that
  earlier call: identical to the run without memoization when the two horizons are
  equal, and computed at the horizon of the earlier call, not truncated, otherwise. With
  kernels that keep the length of the arrays, that horizon is the length of the cached
  arrays and is at least the requested \<open>T_trunc\<close>.
\<close>

theorem cache_resume:
  assumes "use_cache sim" and "hashable P" and "\<forall>Q\<in>set Qs. \<not> clashes P Q"
    and "C = fill K sim Map.empty Qs" and "check_cache C P = (i, hit)"
  shows "(hit = None \<longrightarrow> snd (nested_protocol K sim C P) = plain_protocol K sim P)
       \<and> (\<forall>v. hit = Some v \<longrightarrow>
            0 < i \<and> i \<le> length (protocol P)
            \<and> C (cache_key P (take i (protocol P))) = Some v
            \<and> t_trunc P \<le> int (length (fst v))
            \<and> (\<forall>j u. i < j \<and> j \<le> length (protocol P)
                   \<and> C (cache_key P (take j (protocol P))) = Some u
                 \<longrightarrow> int (length (fst u)) < t_trunc P)
            \<and> snd (nested_protocol K sim C P) = snd (run_steps K sim P C v [i..<length (protocol P)])
            \<and> (\<exists>Q\<in>set Qs. same_call P Q
                 \<and> plain_protocol K sim (P\<lparr>protocol := take i (protocol P), t_trunc := t_trunc Q\<rparr>)
                     = Inr v
                 \<and> snd (nested_protocol K sim C P) = plain_protocol K sim (P\<lparr>t_trunc := t_trunc Q\<rparr>)
                 \<and> (t_trunc Q = t_trunc P
                      \<longrightarrow> snd (nested_protocol K sim C P) = plain_protocol K sim P)
                 \<and> (keeps_length (join_links_efficient K) \<and> keeps_length (join_links_compatible K)
                      \<and> 1 \<le> t_trunc Q
                    \<longrightarrow> int (length (fst v)) = t_trunc Q \<and> t_trunc P \<le> t_trunc Q)))"
proof (intro conjI allI impI)
  assume "hit = None"
  then show "snd (nested_protocol K sim C P) = plain_protocol K sim P"
    using assms(2,5) nested_protocol_miss by simp
next
  fix v assume hit: "hit = Some v"
  have c: "check_from C P (length (protocol P)) = (i, Some v)"
    using assms(5) hit by (simp add: check_cache_def)
  note h = check_from_hit [OF c]
  show "0 < i" "i \<le> length (protocol P)" "C (cache_key P (take i (protocol P))) = Some v"
    "t_trunc P \<le> int (length (fst v))"
    using h by simp_all
  show "int (length (fst u)) < t_trunc P"
    if "i < j \<and> j \<le> length (protocol P) \<and> C (cache_key P (take j (protocol P))) = Some u" for j u
    using h that by blast
  show r: "snd (nested_protocol K sim C P) = snd (run_steps K sim P C v [i..<length (protocol P)])"
    using assms(1,2,5) hit by (simp add: nested_protocol_hit)
  let ?Ts = "t_trunc ` {Q \<in> set Qs. same_call P Q}"
  have "resumable K sim P ?Ts (fill K sim Map.empty Qs)"
    by (rule fill_resumable [OF assms(3)]) (simp_all add: resumable_def)
  then obtain Q where Q: "Q \<in> set Qs" "same_call P Q"
    and pl: "plain_protocol K sim (P\<lparr>protocol := take i (protocol P), t_trunc := t_trunc Q\<rparr>) = Inr v"
    using h assms(4) unfolding resumable_def by blast
  have p: "snd (nested_protocol K sim C P) = plain_protocol K sim (P\<lparr>t_trunc := t_trunc Q\<rparr>)"
    using resume_is_plain [OF _ pl, of C] h r by simp
  have e: "snd (nested_protocol K sim C P) = plain_protocol K sim P" if "t_trunc Q = t_trunc P"
    using p that by simp
  have l: "int (length (fst v)) = t_trunc Q \<and> t_trunc P \<le> t_trunc Q"
    if "keeps_length (join_links_efficient K) \<and> keeps_length (join_links_compatible K)
          \<and> 1 \<le> t_trunc Q"
  proof -
    have "int (length (fst v)) = t_trunc (P\<lparr>protocol := take i (protocol P), t_trunc := t_trunc Q\<rparr>)"
      by (rule plain_protocol_length [OF _ _ pl]) (use that in simp_all)
    then show ?thesis using h by simp
  qed
  show "\<exists>Q\<in>set Qs. same_call P Q
          \<and> plain_protocol K sim (P\<lparr>protocol := take i (protocol P), t_trunc := t_trunc Q\<rparr>) = Inr v
          \<and> snd (nested_protocol K sim C P) = plain_protocol K sim (P\<lparr>t_trunc := t_trunc Q\<rparr>)
          \<and> (t_trunc Q = t_trunc P \<longrightarrow> snd (nested_protocol K sim C P) = plain_protocol K sim P)
          \<and> (keeps_length (join_links_efficient K) \<and> keeps_length (join_links_compatible K)
               \<and> 1 \<le> t_trunc Q
             \<longrightarrow> int (length (fst v)) = t_trunc Q \<and> t_trunc P \<le> t_trunc Q)"
    using Q pl p e l by blast
qed

lemma kernel3:
  "join_links_spec [0, 1/2, 1/4] [0, 1/2, 1/4] [1, 1, 1] [1, 1, 1] False (One (PInt int_max))
     ''memory_time'' ''1'' TInf = Inr [0, 0, 0]"
  "join_links_spec [0, 1/2, 1/4] [0, 1/2, 1/4] [1, 1, 1] [1, 1, 1] True (One (PInt int_max))
     ''memory_time'' ''1'' TInf = Inr [0, 1/4, 5/16]"
  "join_links_spec [0, 1/2, 1/4] [0, 1/2, 1/4] [1, 1, 1] [1, 1, 1] True (One (PInt int_max))
     ''memory_time'' ''w1w2'' TInf = Inr [0, 1/4, 5/16]"
  by (simp_all add: join_links_spec_def join_sum_def passes_def weight_def decay_def nth0_def
      int_max_def upt_rec)

lemma conv3:
  "iterative_convolution exact_simulator [0, 0, 0] int_max (Some [0, 1/4, 5/16]) None
     = Inr [0, 1/4, 5/16]"
  "iterative_convolution exact_simulator [0, 1/4, 5/16] 0 None (Some 1) = Inr [0, 1/4, 5/16]"
  "iterative_convolution exact_simulator [0, 1/4, 5/16] 0 (Some [0, 1/4, 5/16]) (Some 1)
     = Inr [0, 1/4, 5/16]"
  by (simp_all add: iterative_convolution_def iterative_convolution_helper_def required_k_def
      exact_simulator_fields init_sum_def scale_def shift_func_def
      exact_convolution_def convolve_def add_scaled_def coeff_def nth0_def upt_rec
      Let_def int_max_def eval_nat_numeral)

lemma swap3:
  "entanglement_swap spec_kernels exact_simulator [0, 1/2, 1/4] [1, 1, 1] [0, 1/2, 1/4] [1, 1, 1] 1
     (One (PInt int_max)) TInf ''memory_time''
     = Inr ([0, 1/4, 5/16], [Fin 0, Fin 1, Fin 1])"
  by (simp add: entanglement_swap_def select_join_links_def select_join_links_state_def
      select_path_def path_kernel_def spec_kernels_def shift_of_def kernel3 conv3
      divide_tail_def fdiv_def nan_to_one_def Let_def exact_simulator_fields)

lemma swap_step_parameters:
  "step_parameters (swap_parameters T) 0 =
     Inr ((swap_parameters T)\<lparr>mt_cut := Some (One (PInt int_max)),
            w_cut := Some (One (PFloat (1 / 10 ^ 8))), rt_cut := Some (One (PInt int_max))\<rparr>)"
  by (simp add: step_parameters_def rename_tau_def swap_parameters_def base_parameters_def
      mt_cuts_def w_cuts_def rt_cuts_def cut_of_def get_or_def expand_def item_def Let_def)

lemma swap_step_exact:
  "nested_step spec_kernels exact_simulator (swap_parameters T) 0 ([0, 1/2, 1/4], [1, 1, 1])
     = Inr ([0, 1/4, 5/16], [0, 1, 1])"
  "nested_step spec_kernels exact_simulator (swap_parameters T) 0 ([0, 1/2], [1, 1])
     = Inr ([0, 1/4], [0, 1])"
  unfolding nested_step_def swap_step_parameters ebind.simps
  by (simp_all add: apply_operation_def compute_unit_def
      unit_t_coh_def unit_cut_type_def unit_cutoff_def get_or_def check_time_cutoff_def
      check_fidelity_cutoff_def Let_def swap3 swap_exact_example scrub_def nan_to_one_def
      swap_parameters_def base_parameters_def)

lemma swap_step_cached:
  "nested_step spec_kernels cached_simulator (swap_parameters T) 0 st
     = nested_step spec_kernels exact_simulator (swap_parameters T) 0 st"
  unfolding cached_simulator_def by (rule nested_step_use_cache)

lemma swap_first_link:
  "first_link (swap_parameters 3) = Inr ([0, 1/2, 1/4], [1, 1, 1])"
  "first_link (swap_parameters 2) = Inr ([0, 1/2], [1, 1])"
  by (simp_all add: first_link_def swap_parameters_def base_parameters_def elementary_link_def
      upt_rec eval_nat_numeral)

lemma swap_protocol: "protocol (swap_parameters T) = [Tag 0]" "t_trunc (swap_parameters T) = T"
  by (simp_all add: swap_parameters_def)

lemma uncached: "cached_simulator\<lparr>use_cache := False\<rparr> = exact_simulator"
  by (simp add: cached_simulator_def exact_simulator_def new_simulator_def)

lemma plain_swap:
  "plain_protocol spec_kernels cached_simulator (swap_parameters 3) = Inr ([0, 1/4, 5/16], [0, 1, 1])"
  "plain_protocol spec_kernels cached_simulator (swap_parameters 2) = Inr ([0, 1/4], [0, 1])"
  by (simp_all add: plain_protocol_unfold swap_first_link swap_protocol uncached swap_step_exact)

lemma cached_simulator_cache: "use_cache cached_simulator"
  by (simp add: cached_simulator_def)

lemma swap_hashable: "hashable (swap_parameters T)"
  by (simp add: hashable_def swap_parameters_def base_parameters_def)

lemma cached_run_3:
  "nested_protocol spec_kernels cached_simulator Map.empty (swap_parameters 3)
     = (cache_at_3, Inr ([0, 1/4, 5/16], [0, 1, 1]))"
  by (simp add: nested_protocol_def check_cache_def swap_protocol swap_first_link swap_step_cached
      swap_step_exact cache_at_3_def cached_simulator_cache swap_hashable)

lemma same_key:
  "cache_key (swap_parameters 2) [Tag 0] = cache_key (swap_parameters 3) [Tag 0]"
  by (simp add: cache_key_def swap_parameters_def)

lemma check_cache_at_3:
  "check_cache cache_at_3 (swap_parameters 2) = (1, Some ([0, 1/4, 5/16], [0, 1, 1]))"
  by (simp add: check_cache_def swap_protocol same_key cache_at_3_def)

lemma cached_run_2:
  "nested_protocol spec_kernels cached_simulator cache_at_3 (swap_parameters 2)
     = (cache_at_3, Inr ([0, 1/4, 5/16], [0, 1, 1]))"
  by (simp add: nested_protocol_def check_cache_at_3 swap_protocol cached_simulator_cache
      swap_hashable)

lemma check_cache_same:
  "check_cache cache_at_3 (swap_parameters 3) = (1, Some ([0, 1/4, 5/16], [0, 1, 1]))"
  by (simp add: check_cache_def swap_protocol cache_at_3_def)

lemma check_cache_miss: "check_cache Map.empty (swap_parameters 2) = (0, None)"
  by (simp add: check_cache_def swap_protocol)

lemma fill_3: "fill spec_kernels cached_simulator Map.empty [swap_parameters 3] = cache_at_3"
  by (simp add: cached_run_3)

lemma swap_same_call: "same_call (swap_parameters T) (swap_parameters T')"
  by (simp add: same_call_def swap_parameters_def)

lemma swap_no_clash: "\<forall>Q\<in>set [swap_parameters 3]. \<not> clashes (swap_parameters T) Q"
  by (simp add: clashes_def swap_same_call)

lemma swap_at_3: "(swap_parameters T)\<lparr>t_trunc := 3\<rparr> = swap_parameters 3"
  by (simp add: swap_parameters_def)

text \<open>
  Instances: the empty cache, the cache of a run at the horizon 3 asked again at the
  horizon 3, and asked at the horizon 2.
\<close>

theorem cache_resume_witness:
  "snd (nested_protocol spec_kernels cached_simulator
          (fill spec_kernels cached_simulator Map.empty []) (swap_parameters 2))
     = plain_protocol spec_kernels cached_simulator (swap_parameters 2)
   \<and> snd (nested_protocol spec_kernels cached_simulator
          (fill spec_kernels cached_simulator Map.empty [swap_parameters 3]) (swap_parameters 3))
     = plain_protocol spec_kernels cached_simulator (swap_parameters 3)
   \<and> snd (nested_protocol spec_kernels cached_simulator
          (fill spec_kernels cached_simulator Map.empty [swap_parameters 3]) (swap_parameters 2))
     = plain_protocol spec_kernels cached_simulator ((swap_parameters 2)\<lparr>t_trunc := 3\<rparr>)"
proof (intro conjI)
  have m: "check_cache (fill spec_kernels cached_simulator Map.empty []) (swap_parameters 2) = (0, None)"
    by (simp add: check_cache_miss)
  have e: "\<forall>Q\<in>set []. \<not> clashes (swap_parameters 2) Q" by simp
  show "snd (nested_protocol spec_kernels cached_simulator
          (fill spec_kernels cached_simulator Map.empty []) (swap_parameters 2))
     = plain_protocol spec_kernels cached_simulator (swap_parameters 2)"
    using cache_resume [OF cached_simulator_cache swap_hashable e refl m] by simp
  have h: "check_cache (fill spec_kernels cached_simulator Map.empty [swap_parameters 3])
             (swap_parameters T) = (1, Some ([0, 1/4, 5/16], [0, 1, 1]))"
    if "T = 2 \<or> T = 3" for T
    using that check_cache_same check_cache_at_3 unfolding fill_3 by auto
  have r: "snd (nested_protocol spec_kernels cached_simulator
          (fill spec_kernels cached_simulator Map.empty [swap_parameters 3]) (swap_parameters T))
     = plain_protocol spec_kernels cached_simulator (swap_parameters 3)"
    if "T = 2 \<or> T = 3" for T
  proof -
    from cache_resume [OF cached_simulator_cache swap_hashable swap_no_clash refl h [OF that]]
    have "\<exists>Q\<in>set [swap_parameters 3].
            snd (nested_protocol spec_kernels cached_simulator
                   (fill spec_kernels cached_simulator Map.empty [swap_parameters 3]) (swap_parameters T))
              = plain_protocol spec_kernels cached_simulator ((swap_parameters T)\<lparr>t_trunc := t_trunc Q\<rparr>)"
      by blast
    then show ?thesis by (simp add: swap_protocol swap_at_3)
  qed
  show "snd (nested_protocol spec_kernels cached_simulator
          (fill spec_kernels cached_simulator Map.empty [swap_parameters 3]) (swap_parameters 3))
     = plain_protocol spec_kernels cached_simulator (swap_parameters 3)"
    using r [of 3] by simp
  show "snd (nested_protocol spec_kernels cached_simulator
          (fill spec_kernels cached_simulator Map.empty [swap_parameters 3]) (swap_parameters 2))
     = plain_protocol spec_kernels cached_simulator ((swap_parameters 2)\<lparr>t_trunc := 3\<rparr>)"
    using r [of 2] by (simp add: swap_at_3)
qed

lemma kernel5:
  "join_links_spec [0, 1/2] [0, 1/2] [1, 1] [1, 1] False (One (PInt 5)) ''memory_time'' ''1'' TInf
     = Inr [0, 0]"
  "join_links_spec [0, 1/2] [0, 1/2] [1, 1] [1, 1] True (One (PInt 5)) ''memory_time'' ''1'' TInf
     = Inr [0, 1/4]"
  "join_links_spec [0, 1/2] [0, 1/2] [1, 1] [1, 1] True (One (PInt 5)) ''memory_time'' ''w1w2'' TInf
     = Inr [0, 1/4]"
  by (simp_all add: join_links_spec_def join_sum_def passes_def weight_def decay_def nth0_def upt_rec)

lemma conv5:
  "iterative_convolution exact_simulator [0, 0] 5 (Some [0, 1/4]) None = Inr [0, 1/4]"
  by (simp add: iterative_convolution_def iterative_convolution_helper_def required_k_def
      exact_simulator_def new_simulator_def init_sum_def scale_def shift_func_def
      exact_convolution_def convolve_def add_scaled_def coeff_def nth0_def upt_rec
      Let_def eval_nat_numeral)

lemma swap5:
  "entanglement_swap spec_kernels exact_simulator [0, 1/2] [1, 1] [0, 1/2] [1, 1] 1
     (One (PInt 5)) TInf ''memory_time'' = Inr ([0, 1/4], [Fin 0, Fin 1])"
  by (simp add: entanglement_swap_def select_join_links_def select_join_links_state_def
      select_path_def path_kernel_def spec_kernels_def shift_of_def kernel5 conv5 conv_swap_exact
      divide_tail_def fdiv_def nan_to_one_def Let_def exact_simulator_fields)

lemma cut_step_parameters:
  "step_parameters (cut_parameters x) 0 =
     Inr ((cut_parameters x)\<lparr>mt_cut := Some (One x),
            w_cut := Some (One (PFloat (1 / 10 ^ 8))), rt_cut := Some (One (PInt int_max))\<rparr>)"
  by (simp add: step_parameters_def rename_tau_def cut_parameters_def swap_parameters_def
      base_parameters_def mt_cuts_def w_cuts_def rt_cuts_def cut_of_def get_or_def expand_def
      item_def Let_def)

lemma cut_step_int:
  "nested_step spec_kernels exact_simulator (cut_parameters (PInt 5)) 0 ([0, 1/2], [1, 1])
     = Inr ([0, 1/4], [0, 1])"
  unfolding nested_step_def cut_step_parameters ebind.simps
  by (simp add: apply_operation_def compute_unit_def
      unit_t_coh_def unit_cut_type_def unit_cutoff_def get_or_def check_time_cutoff_def
      check_fidelity_cutoff_def Let_def swap5 scrub_def nan_to_one_def
      cut_parameters_def swap_parameters_def base_parameters_def)

lemma cut_step_float:
  "nested_step spec_kernels exact_simulator (cut_parameters (PFloat 5)) 0 st = Inl TypeError"
  unfolding nested_step_def cut_step_parameters ebind.simps
  by (simp add: apply_operation_def compute_unit_def
      unit_t_coh_def unit_cut_type_def unit_cutoff_def get_or_def check_time_cutoff_def
      Let_def cut_parameters_def swap_parameters_def base_parameters_def)

lemma cut_step_cached:
  "nested_step spec_kernels cached_simulator (cut_parameters x) 0 st
     = nested_step spec_kernels exact_simulator (cut_parameters x) 0 st"
  unfolding cached_simulator_def by (rule nested_step_use_cache)

lemma cut_fields:
  "protocol (cut_parameters x) = [Tag 0]" "t_trunc (cut_parameters x) = 2"
  "hashable (cut_parameters x)" "first_link (cut_parameters x) = Inr ([0, 1/2], [1, 1])"
  by (simp_all add: cut_parameters_def swap_parameters_def base_parameters_def hashable_def
      first_link_def elementary_link_def upt_rec eval_nat_numeral)

lemma cached_run_5:
  "nested_protocol spec_kernels cached_simulator Map.empty (cut_parameters (PInt 5))
     = (cache_at_5, Inr ([0, 1/4], [0, 1]))"
  by (simp add: nested_protocol_def check_cache_def cut_fields cut_step_cached cut_step_int
      cache_at_5_def cached_simulator_cache)

lemma same_key_5:
  "cache_key (cut_parameters (PFloat 5)) [Tag 0] = cache_key (cut_parameters (PInt 5)) [Tag 0]"
  by (simp add: cache_key_def cut_parameters_def erase_def)

lemma check_cache_at_5:
  "check_cache cache_at_5 (cut_parameters (PFloat 5)) = (1, Some ([0, 1/4], [0, 1]))"
  by (simp add: check_cache_def cut_fields same_key_5 cache_at_5_def)

lemma cached_run_5_float:
  "nested_protocol spec_kernels cached_simulator cache_at_5 (cut_parameters (PFloat 5))
     = (cache_at_5, Inr ([0, 1/4], [0, 1]))"
  by (simp add: nested_protocol_def check_cache_at_5 cut_fields cached_simulator_cache)

lemma plain_5_float:
  "plain_protocol spec_kernels cached_simulator (cut_parameters (PFloat 5)) = Inl TypeError"
  by (simp add: plain_protocol_unfold cut_fields uncached cut_step_float)

lemma cut_clash: "clashes (cut_parameters (PFloat 5)) (cut_parameters (PInt 5))"
proof -
  have "\<not> same_call (cut_parameters (PFloat 5)) (cut_parameters (PInt 5))"
  proof
    assume "same_call (cut_parameters (PFloat 5)) (cut_parameters (PInt 5))"
    then have "mt_cut ((cut_parameters (PInt 5))\<lparr>protocol := protocol (cut_parameters (PFloat 5)),
                  t_trunc := t_trunc (cut_parameters (PFloat 5))\<rparr>)
             = mt_cut (cut_parameters (PFloat 5))"
      unfolding same_call_def by simp
    then show False by (simp add: cut_parameters_def)
  qed
  moreover have "cache_key (cut_parameters (PInt 5)) [] = cache_key (cut_parameters (PFloat 5)) []"
    by (simp add: cache_key_def cut_parameters_def erase_def)
  ultimately show ?thesis by (simp add: clashes_def)
qed

text \<open>
  C2 as the specification words it fails in two ways. A run at the horizon 3 leaves its
  result in the cache, and a later request with \<open>T_trunc = 2\<close> returns those arrays of
  3 samples, where the run without memoization returns arrays of 2 samples: the result
  is not truncated. And at equal horizons: a run with the memory-time cut-off 5 (an
  integer) leaves its result under a key that the request with the cut-off 5.0 (a float)
  finds, so that request returns arrays where the run without memoization raises
  TypeError.
\<close>

theorem cache_resume_counterexample:
  "fill spec_kernels cached_simulator Map.empty [swap_parameters 3] = cache_at_3
   \<and> snd (nested_protocol spec_kernels cached_simulator cache_at_3 (swap_parameters 2))
     = Inr ([0, 1/4, 5/16], [0, 1, 1])
   \<and> plain_protocol spec_kernels cached_simulator (swap_parameters 2) = Inr ([0, 1/4], [0, 1])
   \<and> fill spec_kernels cached_simulator Map.empty [cut_parameters (PInt 5)] = cache_at_5
   \<and> snd (nested_protocol spec_kernels cached_simulator cache_at_5 (cut_parameters (PFloat 5)))
     = Inr ([0, 1/4], [0, 1])
   \<and> t_trunc (cut_parameters (PFloat 5)) = t_trunc (cut_parameters (PInt 5))
   \<and> plain_protocol spec_kernels cached_simulator (cut_parameters (PFloat 5)) = Inl TypeError
   \<and> clashes (cut_parameters (PFloat 5)) (cut_parameters (PInt 5))"
  by (simp add: cached_run_3 cached_run_2 plain_swap cached_run_5 cached_run_5_float plain_5_float
      cut_fields cut_clash)

end
